theory Spec2Isabelle
  imports Complex_Main
begin

section \<open>Strings\<close>

text \<open>
  A JavaScript string is modelled as a \<^typ>\<open>string\<close>: the list of its code units, here
  the code units below 256. \<open>String.prototype.trim\<close> removes the WhiteSpace and
  LineTerminator code units at both ends; below 256 these are TAB, LF, VT, FF, CR, SP and
  NBSP.
\<close>

definition DQUOTE :: char where
  "DQUOTE = CHR 0x22"

definition COMMA :: char where
  "COMMA = CHR '',''"

definition CR :: char where
  "CR = CHR 0x0D"

definition LF :: char where
  "LF = CHR 0x0A"

definition isWhiteSpace :: "char \<Rightarrow> bool" where
  "isWhiteSpace c = (of_char c \<in> set [9, 10, 11, 12, 13, 32, 160 :: nat])"

definition trim :: "string \<Rightarrow> string" where
  "trim s = rev (dropWhile isWhiteSpace (rev (dropWhile isWhiteSpace s)))"

section \<open>CSV parser (all three server variants share this code)\<close>

text \<open>
  \<^verbatim>\<open>
  function parseCsvLine(line) {
    const out = [];
    let cur = "", inQuotes = false;
    for (let i = 0; i < line.length; i++) {
      const ch = line[i];
      if (ch === '"') {
        if (inQuotes && line[i + 1] === '"') { cur += '"'; i++; }
        else inQuotes = !inQuotes;
      } else if (ch === "," && !inQuotes) { out.push(cur); cur = ""; }
      else { cur += ch; }
    }
    out.push(cur);
    return out.map((s) => s.trim());
  }
  \<close>
  The loop runs over the characters still to read; \<open>line[i + 1]\<close> past the end is
  \<open>undefined\<close>, which is not a quote.
\<close>

fun parseCsvLine_loop :: "string \<Rightarrow> string list \<Rightarrow> string \<Rightarrow> bool \<Rightarrow> string list" where
  "parseCsvLine_loop [] out cur inQuotes = out @ [cur]"
| "parseCsvLine_loop [ch] out cur inQuotes =
     (if ch = DQUOTE then parseCsvLine_loop [] out cur (\<not> inQuotes)
      else if ch = COMMA \<and> \<not> inQuotes then parseCsvLine_loop [] (out @ [cur]) [] inQuotes
      else parseCsvLine_loop [] out (cur @ [ch]) inQuotes)"
| "parseCsvLine_loop (ch # nxt # rest) out cur inQuotes =
     (if ch = DQUOTE then
        (if inQuotes \<and> nxt = DQUOTE
         then parseCsvLine_loop rest out (cur @ [DQUOTE]) inQuotes
         else parseCsvLine_loop (nxt # rest) out cur (\<not> inQuotes))
      else if ch = COMMA \<and> \<not> inQuotes
      then parseCsvLine_loop (nxt # rest) (out @ [cur]) [] inQuotes
      else parseCsvLine_loop (nxt # rest) out (cur @ [ch]) inQuotes)"

definition parseCsvLine :: "string \<Rightarrow> string list" where
  "parseCsvLine line = map trim (parseCsvLine_loop line [] [] False)"

text \<open>
  \<open>text.split(/\r?\n/)\<close>: the text is cut at every LF, and at every CR that an LF
  follows; the pieces between the cuts are returned, the last one included, so the
  result of splitting the empty string is the one-element array \<open>[""]\<close>.
  The second argument is the piece being collected.
\<close>

fun split_newlines :: "string \<Rightarrow> string \<Rightarrow> string list" where
  "split_newlines [] cur = [cur]"
| "split_newlines [c] cur =
     (if c = LF then cur # split_newlines [] [] else split_newlines [] (cur @ [c]))"
| "split_newlines (c # d # rest) cur =
     (if c = CR \<and> d = LF then cur # split_newlines rest []
      else if c = LF then cur # split_newlines (d # rest) []
      else split_newlines (d # rest) (cur @ [c]))"

text \<open>
  \<^verbatim>\<open>
  function parseCsv(text) {
    const lines = text.trim().split(/\r?\n/);
    return lines.map(parseCsvLine);
  }
  \<close>
\<close>

definition parseCsv :: "string \<Rightarrow> string list list" where
  "parseCsv text = map parseCsvLine (split_newlines (trim text) [])"

text \<open>
  The writer's side of the round trip, following the CSV convention the parser reads:
  a cell is enclosed in double quotes, every double quote inside it is doubled, and
  the cells of a line are joined by commas.
\<close>

definition csv_escape :: "string \<Rightarrow> string" where
  "csv_escape c = concat (map (\<lambda>ch. if ch = DQUOTE then [DQUOTE, DQUOTE] else [ch]) c)"

definition csv_quote :: "string \<Rightarrow> string" where
  "csv_quote c = DQUOTE # csv_escape c @ [DQUOTE]"

fun csv_line :: "string list \<Rightarrow> string" where
  "csv_line [] = []"
| "csv_line [c] = csv_quote c"
| "csv_line (c # d # cs) = csv_quote c @ COMMA # csv_line (d # cs)"

definition untrimmed :: "string \<Rightarrow> bool" where
  "untrimmed c = (c = [] \<or> (\<not> isWhiteSpace (hd c) \<and> \<not> isWhiteSpace (last c)))"

section \<open>Image size upgrade\<close>

definition SLASH :: char where
  "SLASH = CHR ''/''"

definition isDigit :: "char \<Rightarrow> bool" where
  "isDigit c = (48 \<le> (of_char c :: nat) \<and> (of_char c :: nat) \<le> 57)"

definition SIZE360 :: string where
  "SIZE360 = ''/360fx360f''"

text \<open>
  The regular expression \<open>\/\d+fx\d+f\<close>, tried at the start of a string: the number of
  characters it matches there, if it matches. A run \<open>\d+\<close> is greedy and the character
  that must follow it (\<open>f\<close>) is no digit, so the only run that can lead to a match is
  the longest one and backtracking finds nothing more.
\<close>

definition match_size :: "string \<Rightarrow> nat option" where
  "match_size s =
     (case s of
        [] \<Rightarrow> None
      | c # r \<Rightarrow>
          if c \<noteq> SLASH then None
          else let n1 = length (takeWhile isDigit r) in
            if n1 = 0 then None
            else (case drop n1 r of
                    f # x # r2 \<Rightarrow>
                      if f = CHR ''f'' \<and> x = CHR ''x'' then
                        let n2 = length (takeWhile isDigit r2) in
                        if n2 = 0 then None
                        else (case drop n2 r2 of
                                g # r3 \<Rightarrow> if g = CHR ''f'' then Some (n1 + n2 + 4) else None
                              | [] \<Rightarrow> None)
                      else None
                  | _ \<Rightarrow> None))"

text \<open>
  \<open>s.replace(/\/\d+fx\d+f$/, "/360fx360f")\<close>: the leftmost place where the pattern
  matches up to the end of the string is replaced; without a match the string is
  returned as it is.
\<close>

fun replace_anchored :: "string \<Rightarrow> string" where
  "replace_anchored [] = []"
| "replace_anchored (c # s) =
     (if match_size (c # s) = Some (length (c # s)) then SIZE360
      else c # replace_anchored s)"

text \<open>
  \<open>s.replace(/\/\d+fx\d+f/g, "/360fx360f")\<close>: every match is replaced, scanning from
  the left and going on behind each match.
\<close>

fun replace_global :: "string \<Rightarrow> string" where
  "replace_global [] = []"
| "replace_global (c # s) =
     (case match_size (c # s) of
        Some n \<Rightarrow> SIZE360 @ replace_global (drop (n - 1) s)
      | None \<Rightarrow> c # replace_global s)"

text \<open>
  \<^verbatim>\<open>
  function upgradeSteamImageSize(url) {          // server.js
    if (!url) return url;
    return String(url).replace(/\/\d+fx\d+f$/, "/360fx360f");
  }
  function upgradeSteamImageSize(url) {          // persistent variant
    if (!url) return url;
    return url.replace(/\/\d+fx\d+f/g, "/360fx360f");
  }
  \<close>
  on strings; the empty string is falsy and is returned as it is.
\<close>

definition upgradeSteamImageSize :: "string \<Rightarrow> string" where
  "upgradeSteamImageSize url = (if url = [] then url else replace_anchored url)"

definition upgradeSteamImageSize_global :: "string \<Rightarrow> string" where
  "upgradeSteamImageSize_global url = (if url = [] then url else replace_global url)"

section \<open>Numeric cells\<close>

text \<open>
  A JavaScript number is NaN, an infinity, or a finite double. The finite doubles are
  modelled by the exact decimal value they were read from: the rounding of a finite
  value to the nearest double is left out, the overflow to an infinity is kept (a
  decimal of magnitude at least \<open>2^1024 - 2^970\<close> rounds to an infinity).
\<close>

datatype jsnum = NaN | PosInf | NegInf | Num rat

definition round_double :: "rat \<Rightarrow> jsnum" where
  "round_double v =
     (if v \<ge> 2 ^ 1024 - 2 ^ 970 then PosInf
      else if v \<le> - (2 ^ 1024 - 2 ^ 970) then NegInf
      else Num v)"

definition digit_val :: "char \<Rightarrow> nat" where
  "digit_val c = of_char c - 48"

definition decimal :: "string \<Rightarrow> nat" where
  "decimal ds = foldl (\<lambda>a c. 10 * a + digit_val c) 0 ds"

text \<open>\<open>s.replace(/[^0-9.\-]/g, "")\<close>: only digits, dots and minus signs are kept.\<close>

definition strip_numeric :: "string \<Rightarrow> string" where
  "strip_numeric s = filter (\<lambda>c. isDigit c \<or> c = CHR ''.'' \<or> c = CHR ''-'') s"

text \<open>
  \<open>Number(s)\<close> on the strings the code passes to it, which hold nothing but digits,
  dots and minus signs: the empty string is 0; an optional minus sign followed by
  \<open>digits\<close>, \<open>digits.\<close>, \<open>digits.digits\<close> or \<open>.digits\<close> is that decimal; every other
  such string is NaN. (White space, \<open>+\<close>, exponents, \<open>Infinity\<close> and the \<open>0x\<close>, \<open>0o\<close>,
  \<open>0b\<close> forms need characters that the stripping has removed.)
\<close>

definition unsigned_decimal :: "string \<Rightarrow> rat option" where
  "unsigned_decimal u =
     (let ip = takeWhile isDigit u; r = dropWhile isDigit u in
      case r of
        [] \<Rightarrow> if ip = [] then None else Some (of_nat (decimal ip))
      | c # fp \<Rightarrow>
          if c = CHR ''.'' \<and> list_all isDigit fp \<and> (ip \<noteq> [] \<or> fp \<noteq> [])
          then Some (of_nat (decimal ip) + of_nat (decimal fp) / 10 ^ length fp)
          else None)"

definition Number_stripped :: "string \<Rightarrow> jsnum" where
  "Number_stripped s =
     (case s of
        [] \<Rightarrow> Num 0
      | c # r \<Rightarrow>
          if c = CHR ''-''
          then (case unsigned_decimal r of None \<Rightarrow> NaN | Some v \<Rightarrow> round_double (- v))
          else (case unsigned_decimal s of None \<Rightarrow> NaN | Some v \<Rightarrow> round_double v))"

text \<open>\<open>Number.isFinite(n) ? n : null\<close>\<close>

definition finite_or_null :: "jsnum \<Rightarrow> rat option" where
  "finite_or_null n = (case n of Num v \<Rightarrow> Some v | _ \<Rightarrow> None)"

text \<open>
  The sheet price on the request path of server.js; the raw cell is \<open>it.row?.[4]\<close>,
  \<open>undefined\<close> (here \<open>None\<close>) when the row has no fifth cell:
  \<^verbatim>\<open>
  const sheetPriceNum = Number(String(sheetPriceRaw ?? "").replace(/[^0-9.\-]/g, ""));
  const sheetPrice = Number.isFinite(sheetPriceNum) ? sheetPriceNum : null;
  \<close>
\<close>

definition request_sheetPrice :: "string option \<Rightarrow> rat option" where
  "request_sheetPrice sheetPriceRaw =
     finite_or_null (Number_stripped (strip_numeric (case sheetPriceRaw of None \<Rightarrow> [] | Some s \<Rightarrow> s)))"

text \<open>
  \<^verbatim>\<open>
  function moneyToNumber(x) {                     // server.js
    if (!x) return null;
    const n = Number(String(x).replace(/[^0-9.\-]/g, ""));
    return Number.isFinite(n) ? n : null;
  }
  \<close>
  on a string or a missing field.
\<close>

definition moneyToNumber :: "string option \<Rightarrow> rat option" where
  "moneyToNumber x =
     (case x of
        None \<Rightarrow> None
      | Some s \<Rightarrow> if s = [] then None else finite_or_null (Number_stripped (strip_numeric s)))"

text \<open>
  \<^verbatim>\<open>
  function numOrNull(x) {                         // persistent variant
    const s0 = String(x ?? "").trim();
    if (!s0) return null;
    const s = s0.replace(/[^0-9.\-]/g, "");
    if (!s || s === "-" || s === "." || s === "-.") return null;
    const n = Number(s);
    return Number.isFinite(n) ? n : null;
  }
  function intOrNull(x) {
    const n = numOrNull(x);
    return n == null ? null : Math.trunc(n);
  }
  \<close>
\<close>

definition numOrNull :: "string option \<Rightarrow> rat option" where
  "numOrNull x =
     (let s0 = trim (case x of None \<Rightarrow> [] | Some s \<Rightarrow> s) in
      if s0 = [] then None
      else let s = strip_numeric s0 in
        if s = [] \<or> s = ''-'' \<or> s = ''.'' \<or> s = ''-.'' then None
        else finite_or_null (Number_stripped s))"

definition trunc_rat :: "rat \<Rightarrow> int" where
  "trunc_rat v = (if v < 0 then \<lceil>v\<rceil> else \<lfloor>v\<rfloor>)"

definition intOrNull :: "string option \<Rightarrow> int option" where
  "intOrNull x = map_option trunc_rat (numOrNull x)"

section \<open>Parsed JSON values\<close>

text \<open>
  The value \<open>resp.json()\<close> returns. An object is the list of its own properties in the
  order \<open>Object.keys\<close> enumerates them; a property is read by its key.
\<close>

datatype json =
    JNull
  | JBool bool
  | JNum rat
  | JStr string
  | JArr "json list"
  | JObj "(string \<times> json) list"

fun jsize :: "json \<Rightarrow> nat" where
  "jsize (JArr xs) = Suc (sum_list (map jsize xs))"
| "jsize (JObj kvs) = Suc (sum_list (map (\<lambda>kv. jsize (snd kv)) kvs))"
| "jsize _ = 1"

text \<open>\<open>!node\<close> is false on a truthy value.\<close>

fun truthy :: "json \<Rightarrow> bool" where
  "truthy JNull = False"
| "truthy (JBool b) = b"
| "truthy (JNum n) = (n \<noteq> 0)"
| "truthy (JStr s) = (s \<noteq> [])"
| "truthy (JArr xs) = True"
| "truthy (JObj kvs) = True"

text \<open>\<open>typeof node === "object"\<close>, on a truthy value.\<close>

fun isObject :: "json \<Rightarrow> bool" where
  "isObject (JArr xs) = True"
| "isObject (JObj kvs) = True"
| "isObject _ = False"

text \<open>
  \<open>node.key\<close> for a key that is no array index and no built-in property: the
  property's value on an object that has it, \<open>undefined\<close> (here \<open>None\<close>) otherwise.
\<close>

fun field :: "json \<Rightarrow> string \<Rightarrow> json option" where
  "field (JObj kvs) key = map_of kvs key"
| "field _ key = None"

text \<open>The values \<open>node[k]\<close> for \<open>k\<close> of \<open>Object.keys(node)\<close>, in that order.\<close>

fun children :: "json \<Rightarrow> json list" where
  "children (JArr xs) = xs"
| "children (JObj kvs) = map snd kvs"
| "children _ = []"

text \<open>\<open>typeof v === "string"\<close> on a property that may be missing.\<close>

fun string_of :: "json option \<Rightarrow> string option" where
  "string_of (Some (JStr s)) = Some s"
| "string_of _ = None"

text \<open>\<open>v && typeof v === "string"\<close>: a string that is not empty.\<close>

definition truthy_string_of :: "json option \<Rightarrow> string option" where
  "truthy_string_of v = (case string_of v of Some s \<Rightarrow> if s = [] then None else Some s | None \<Rightarrow> None)"

section \<open>Image resolver, strategy A\<close>

text \<open>
  The traversal of server.js; the stack's top is the head of the list, so pushing the
  children in key order puts the last child on top.
  \<^verbatim>\<open>
  const stack = [assets];
  while (stack.length) {
    const node = stack.pop();
    if (!node) continue;
    if (typeof node === "object") {
      if (node.icon_url_large && typeof node.icon_url_large === "string") {
        iconUrl = node.icon_url_large; break;
      }
      if (node.icon_url && typeof node.icon_url === "string") {
        iconUrl = node.icon_url; break;
      }
      for (const k of Object.keys(node)) stack.push(node[k]);
    }
  }
  \<close>
\<close>

function strategyA_server :: "json list \<Rightarrow> string option" where
  "strategyA_server [] = None"
| "strategyA_server (node # stack) =
     (if \<not> truthy node then strategyA_server stack
      else if isObject node then
        (case truthy_string_of (field node ''icon_url_large'') of
           Some u \<Rightarrow> Some u
         | None \<Rightarrow>
             (case truthy_string_of (field node ''icon_url'') of
                Some u \<Rightarrow> Some u
              | None \<Rightarrow> strategyA_server (rev (children node) @ stack)))
      else strategyA_server stack)"
  by pat_completeness auto

lemma sum_list_children: "isObject node \<Longrightarrow> sum_list (map jsize (children node)) < jsize node"
  by (cases node) (simp_all add: comp_def)

lemma jsize_pos: "0 < jsize node"
  by (cases node) simp_all

termination strategyA_server
  by (relation "measure (\<lambda>stack. sum_list (map jsize stack))")
    (simp_all add: sum_list_children jsize_pos rev_map [symmetric])

text \<open>
  The traversal of the first in-memory variant reads the two fields in the other order:
  \<^verbatim>\<open>
      if (node.icon_url && typeof node.icon_url === "string") {
        iconUrl = node.icon_url; break;
      }
      if (node.icon_url_large && typeof node.icon_url_large === "string") {
        iconUrl = node.icon_url_large; break;
      }
  \<close>
\<close>

function strategyA_memory :: "json list \<Rightarrow> string option" where
  "strategyA_memory [] = None"
| "strategyA_memory (node # stack) =
     (if \<not> truthy node then strategyA_memory stack
      else if isObject node then
        (case truthy_string_of (field node ''icon_url'') of
           Some u \<Rightarrow> Some u
         | None \<Rightarrow>
             (case truthy_string_of (field node ''icon_url_large'') of
                Some u \<Rightarrow> Some u
              | None \<Rightarrow> strategyA_memory (rev (children node) @ stack)))
      else strategyA_memory stack)"
  by pat_completeness auto

termination strategyA_memory
  by (relation "measure (\<lambda>stack. sum_list (map jsize stack))")
    (simp_all add: sum_list_children jsize_pos rev_map [symmetric])

text \<open>
  The traversal of the persistent variant takes any string, the empty one included:
  \<^verbatim>\<open>
    const node = stack.pop();
    if (!node || typeof node !== "object") continue;
    if (typeof node.icon_url_large === "string") { iconUrl = node.icon_url_large; break; }
    if (typeof node.icon_url === "string") { iconUrl = node.icon_url; break; }
    for (const k of Object.keys(node)) stack.push(node[k]);
  \<close>
\<close>

function strategyA_persistent :: "json list \<Rightarrow> string option" where
  "strategyA_persistent [] = None"
| "strategyA_persistent (node # stack) =
     (if \<not> truthy node \<or> \<not> isObject node then strategyA_persistent stack
      else
        (case string_of (field node ''icon_url_large'') of
           Some u \<Rightarrow> Some u
         | None \<Rightarrow>
             (case string_of (field node ''icon_url'') of
                Some u \<Rightarrow> Some u
              | None \<Rightarrow> strategyA_persistent (rev (children node) @ stack))))"
  by pat_completeness auto

termination strategyA_persistent
  by (relation "measure (\<lambda>stack. sum_list (map jsize stack))")
    (auto simp: sum_list_children jsize_pos rev_map [symmetric])

text \<open>\<open>const assets = data?.assets; if (assets) { ... }\<close>\<close>

definition assets_stack :: "json \<Rightarrow> json list" where
  "assets_stack data =
     (case field data ''assets'' of
        Some assets \<Rightarrow> if truthy assets then [assets] else []
      | None \<Rightarrow> [])"

section \<open>Image resolver, strategy B and the upstream\<close>

text \<open>
  What the search endpoint does on a request: the call fails, answers with a status
  that is not ok, answers with a body that is no JSON, or answers with a JSON value.
\<close>

datatype response = NetworkFailure | HttpStatus nat | NotJson | Json json

datatype error = FetchFailed | SteamSearchFailed nat | SyntaxError | TypeError

text \<open>
  \<open>data?.results_html || ""\<close>, then \<open>html.match\<close>, which only a string has.
\<close>

definition results_html :: "json \<Rightarrow> error + string" where
  "results_html data =
     (case field data ''results_html'' of
        None \<Rightarrow> Inr []
      | Some v \<Rightarrow>
          if \<not> truthy v then Inr []
          else (case v of JStr s \<Rightarrow> Inr s | _ \<Rightarrow> Inl TypeError))"

text \<open>\<open>src.replace(/&amp;/g, "&")\<close>\<close>

fun unescape_amp :: "string \<Rightarrow> string" where
  "unescape_amp [] = []"
| "unescape_amp (c # s) =
     (if c = CHR ''&'' \<and> take 4 s = ''amp;'' then CHR ''&'' # unescape_amp (drop 4 s)
      else c # unescape_amp s)"

text \<open>
  Strategy B. The parameter \<open>scrape\<close> stands for the two regular expressions matched
  against the HTML fragment (the \<open>src\<close> of the first \<open>img\<close> tag that mentions
  steamstatic, else of the first \<open>img\<close> tag): it gives the captured \<open>m[1]\<close>, or \<open>None\<close>
  when neither matches. The parameter \<open>upgrade\<close> is what the variant does to the URL.
\<close>

definition strategyB :: "(string \<Rightarrow> string option) \<Rightarrow> (string \<Rightarrow> string) \<Rightarrow> json \<Rightarrow> error + string option" where
  "strategyB scrape upgrade data =
     (case results_html data of
        Inl e \<Rightarrow> Inl e
      | Inr html \<Rightarrow>
          (case scrape html of
             None \<Rightarrow> Inr None
           | Some m1 \<Rightarrow> if m1 = [] then Inr None else Inr (Some (upgrade (unescape_amp m1)))))"

text \<open>
  \<open>iconUrl.startsWith("http") ? iconUrl : `${base}${iconUrl}`\<close>
\<close>

definition full_url :: "string \<Rightarrow> string \<Rightarrow> string" where
  "full_url base iconUrl = (if take 4 iconUrl = ''http'' then iconUrl else base @ iconUrl)"

definition CLOUDFLARE_BASE :: string where
  "CLOUDFLARE_BASE = ''https://community.cloudflare.steamstatic.com/economy/image/''"

definition FASTLY_BASE :: string where
  "FASTLY_BASE = ''https://community.fastly.steamstatic.com/economy/image/''"

text \<open>
  What each variant makes of the parsed response: the URL it returns, or \<open>null\<close>
  (\<open>None\<close>) when neither strategy finds one.
\<close>

definition resolve_server :: "(string \<Rightarrow> string option) \<Rightarrow> json \<Rightarrow> error + string option" where
  "resolve_server scrape data =
     (case strategyA_server (assets_stack data) of
        Some iconUrl \<Rightarrow>
          if iconUrl \<noteq> [] then Inr (Some (upgradeSteamImageSize (full_url CLOUDFLARE_BASE iconUrl)))
          else strategyB scrape upgradeSteamImageSize data
      | None \<Rightarrow> strategyB scrape upgradeSteamImageSize data)"

definition resolve_memory :: "(string \<Rightarrow> string option) \<Rightarrow> json \<Rightarrow> error + string option" where
  "resolve_memory scrape data =
     (case strategyA_memory (assets_stack data) of
        Some iconUrl \<Rightarrow>
          if iconUrl \<noteq> [] then Inr (Some (full_url CLOUDFLARE_BASE iconUrl))
          else strategyB scrape (\<lambda>u. u) data
      | None \<Rightarrow> strategyB scrape (\<lambda>u. u) data)"

definition resolve_persistent :: "(string \<Rightarrow> string option) \<Rightarrow> json \<Rightarrow> error + string option" where
  "resolve_persistent scrape data =
     (case strategyA_persistent (assets_stack data) of
        Some iconUrl \<Rightarrow>
          if iconUrl \<noteq> [] then Inr (Some (upgradeSteamImageSize_global (full_url FASTLY_BASE iconUrl)))
          else strategyB scrape upgradeSteamImageSize_global data
      | None \<Rightarrow> strategyB scrape upgradeSteamImageSize_global data)"

definition read_response :: "response \<Rightarrow> error + json" where
  "read_response r =
     (case r of
        NetworkFailure \<Rightarrow> Inl FetchFailed
      | HttpStatus n \<Rightarrow> Inl (SteamSearchFailed n)
      | NotJson \<Rightarrow> Inl SyntaxError
      | Json data \<Rightarrow> Inr data)"

section \<open>The in-memory image cache\<close>

text \<open>
  The state of an in-memory server: the image cache, the clock \<open>Date.now()\<close> reads (in
  milliseconds) and the market names sent to the search endpoint so far.
\<close>

record cache_entry =
  entry_imageUrl :: "string option"
  entry_ts :: int

record server_state =
  imageCache :: "string \<rightharpoonup> cache_entry"
  clock :: int
  requests :: "string list"

text \<open>
  \<^verbatim>\<open>
  function cacheGet(key) {
    const v = imageCache.get(key);
    if (!v) return null;
    if (now() - v.ts > CACHE_TTL_MS) { imageCache.delete(key); return null; }
    return v.imageUrl;
  }
  function cacheSet(key, imageUrl) { imageCache.set(key, { imageUrl, ts: now() }); }
  \<close>
  The result \<open>null\<close> is \<open>None\<close>. The TTL is 24 hours in server.js and 6 hours in the first
  variant.
\<close>

definition cacheGet :: "int \<Rightarrow> string \<Rightarrow> server_state \<Rightarrow> string option \<times> server_state" where
  "cacheGet ttl key st =
     (case imageCache st key of
        None \<Rightarrow> (None, st)
      | Some v \<Rightarrow>
          if clock st - entry_ts v > ttl
          then (None, st\<lparr>imageCache := (imageCache st)(key := None)\<rparr>)
          else (entry_imageUrl v, st))"

definition cacheSet :: "string \<Rightarrow> string option \<Rightarrow> server_state \<Rightarrow> server_state" where
  "cacheSet key url st =
     st\<lparr>imageCache := (imageCache st)(key \<mapsto> \<lparr>entry_imageUrl = url, entry_ts = clock st\<rparr>)\<rparr>"

definition CACHE_TTL_MS_server :: int where
  "CACHE_TTL_MS_server = 24 * 60 * 60 * 1000"

definition CACHE_TTL_MS_memory :: int where
  "CACHE_TTL_MS_memory = 6 * 60 * 60 * 1000"

text \<open>
  The request to the search endpoint: it is written to the log, and the clock has moved
  on by the time the answer is there. The parameter \<open>fetch\<close> gives, for a market name,
  the time the endpoint takes and its answer.
\<close>

definition search_request :: "(string \<Rightarrow> nat \<times> response) \<Rightarrow> string \<Rightarrow> server_state \<Rightarrow> (error + json) \<times> server_state" where
  "search_request fetch marketName st =
     (read_response (snd (fetch marketName)),
      st\<lparr>clock := clock st + int (fst (fetch marketName)),
         requests := requests st @ [marketName]\<rparr>)"

text \<open>
  \<^verbatim>\<open>
  async function fetchSteamImage(marketName) {      // server.js
    const cached = cacheGet(marketName);
    // (the source's comment here: the cached value may be null, which means that
    //  it was not found before)
    if (cached !== null && cached !== undefined) return cached;
    ... fetch, strategies A and B ...
      cacheSet(marketName, upgraded); return upgraded;
    ...
    cacheSet(marketName, null);
    return null;
  }
  \<close>
  A failure (\<open>Inl\<close>) is the rejection of the promise; nothing is cached then.
\<close>

definition fetchSteamImage_server :: "(string \<Rightarrow> nat \<times> response) \<Rightarrow> (string \<Rightarrow> string option) \<Rightarrow> string \<Rightarrow> server_state \<Rightarrow> (error + string option) \<times> server_state" where
  "fetchSteamImage_server fetch scrape marketName st =
     (case cacheGet CACHE_TTL_MS_server marketName st of
        (Some cached, st1) \<Rightarrow> (Inr (Some cached), st1)
      | (None, st1) \<Rightarrow>
          (case search_request fetch marketName st1 of
             (Inl e, st2) \<Rightarrow> (Inl e, st2)
           | (Inr data, st2) \<Rightarrow>
               (case resolve_server scrape data of
                  Inl e \<Rightarrow> (Inl e, st2)
                | Inr url \<Rightarrow> (Inr url, cacheSet marketName url st2))))"

text \<open>
  The first variant returns the cached value when it is truthy:
  \<open>const cached = cacheGet(marketName); if (cached) return cached;\<close>
\<close>

definition fetchSteamImage_memory :: "(string \<Rightarrow> nat \<times> response) \<Rightarrow> (string \<Rightarrow> string option) \<Rightarrow> string \<Rightarrow> server_state \<Rightarrow> (error + string option) \<times> server_state" where
  "fetchSteamImage_memory fetch scrape marketName st =
     (let (cached, st1) = cacheGet CACHE_TTL_MS_memory marketName st in
      if cached \<noteq> None \<and> cached \<noteq> Some [] then (Inr cached, st1)
      else
        (case search_request fetch marketName st1 of
           (Inl e, st2) \<Rightarrow> (Inl e, st2)
         | (Inr data, st2) \<Rightarrow>
             (case resolve_memory scrape data of
                Inl e \<Rightarrow> (Inl e, st2)
              | Inr url \<Rightarrow> (Inr url, cacheSet marketName url st2))))"

section \<open>The persistent variant: records and sheet parsing\<close>

text \<open>
  \<^verbatim>\<open>
  function toMarketName(itemName, wear) {
    const n = String(itemName || "").trim();
    const w = String(wear || "").trim();
    if (!w) return n;
    return `${n} (${w})`;
  }
  \<close>
  A cell the row does not have is \<open>undefined\<close>, here \<open>None\<close>.
\<close>

definition or_empty :: "string option \<Rightarrow> string" where
  "or_empty x = (case x of None \<Rightarrow> [] | Some s \<Rightarrow> s)"

definition toMarketName :: "string option \<Rightarrow> string option \<Rightarrow> string" where
  "toMarketName itemName wear =
     (let n = trim (or_empty itemName); w = trim (or_empty wear) in
      if w = [] then n else n @ '' ('' @ w @ '')'')"

text \<open>
  A date built by \<open>new Date(yy, mm - 1, dd, 0, 0, 0, 0)\<close>, kept as the three arguments
  of the constructor.
\<close>

datatype local_date = LocalDate nat nat nat

text \<open>
  The match of \<open>/^(\d{1,2})\/(\d{1,2})\/(\d{4})$/\<close>: the three groups. A run of one or
  two digits must be followed by a slash, so it is the whole run of digits there.
\<close>

definition match_mdy :: "string \<Rightarrow> (string \<times> string \<times> string) option" where
  "match_mdy t =
     (let m = takeWhile isDigit t; r = dropWhile isDigit t in
      if (length m = 1 \<or> length m = 2) \<and> r \<noteq> [] \<and> hd r = SLASH then
        (let d = takeWhile isDigit (tl r); r2 = dropWhile isDigit (tl r) in
         if (length d = 1 \<or> length d = 2) \<and> r2 \<noteq> [] \<and> hd r2 = SLASH then
           (let y = tl r2 in
            if length y = 4 \<and> list_all isDigit y then Some (m, d, y) else None)
         else None)
      else None)"

text \<open>
  \<^verbatim>\<open>
  function parseMDYDate(s) {
    if (!s) return null;
    const t = String(s).trim();
    const m = t.match(/^(\d{1,2})\/(\d{1,2})\/(\d{4})$/);
    if (!m) return null;
    const mm = Number(m[1]); const dd = Number(m[2]); const yy = Number(m[3]);
    if (!mm || !dd || !yy) return null;
    const d = new Date(yy, mm - 1, dd, 0, 0, 0, 0);
    return Number.isFinite(d.getTime()) ? d : null;
  }
  \<close>
  The time value of a date with a year below 10000, a month below 100 and a day below
  100 is finite.
\<close>

definition parseMDYDate :: "string option \<Rightarrow> local_date option" where
  "parseMDYDate s =
     (case s of
        None \<Rightarrow> None
      | Some s' \<Rightarrow>
          if s' = [] then None
          else (case match_mdy (trim s') of
                  None \<Rightarrow> None
                | Some (m, d, y) \<Rightarrow>
                    let mm = decimal m; dd = decimal d; yy = decimal y in
                    if mm = 0 \<or> dd = 0 \<or> yy = 0 then None
                    else Some (LocalDate yy (mm - 1) dd)))"

text \<open>
  A document of the Item collection, with the fields of the schema. Times
  (\<open>new Date()\<close>) are the clock's milliseconds; an error field holds the error whose
  \<open>String(e)\<close> the code stores; \<open>None\<close> is \<open>null\<close>.
\<close>

record item =
  marketName :: string
  name :: string
  wear :: "string option"
  sheetPrice :: "rat option"
  floatValue :: "rat option"
  paintSeed :: "int option"
  sheetTimestamp :: "local_date option"
  row :: "string list"
  lastSeenAt :: int
  imageUrl :: "string option"
  steamLowest :: "rat option"
  steamMedian :: "rat option"
  steamVolume :: "rat option"
  imageUpdatedAt :: "int option"
  steamUpdatedAt :: "int option"
  imageError :: "error option"
  steamError :: "error option"

text \<open>\<open>r[i]\<close>, \<open>undefined\<close> past the end of the row.\<close>

definition cell :: "string list \<Rightarrow> nat \<Rightarrow> string option" where
  "cell r i = (if i < length r then Some (r ! i) else None)"

section \<open>The persistent variant: upsert from the sheet\<close>

text \<open>
  One operation of the bulk write: \<open>updateOne\<close> with the filter \<open>{ marketName }\<close>,
  \<open>upsert: true\<close>, the \<open>$set\<close> of the sheet's fields and of \<open>lastSeenAt\<close>, and the
  \<open>$setOnInsert\<close> that sets the eight Steam fields to null. The operation is kept as the
  values of its \<open>$set\<close>.
\<close>

record upsert_op =
  set_marketName :: string
  set_name :: string
  set_wear :: "string option"
  set_sheetPrice :: "rat option"
  set_floatValue :: "rat option"
  set_paintSeed :: "int option"
  set_sheetTimestamp :: "local_date option"
  set_row :: "string list"
  set_lastSeenAt :: int

definition apply_set :: "upsert_op \<Rightarrow> item \<Rightarrow> item" where
  "apply_set op doc =
     doc\<lparr>marketName := set_marketName op, name := set_name op, wear := set_wear op,
         sheetPrice := set_sheetPrice op, floatValue := set_floatValue op,
         paintSeed := set_paintSeed op, sheetTimestamp := set_sheetTimestamp op,
         row := set_row op, lastSeenAt := set_lastSeenAt op\<rparr>"

definition inserted :: "upsert_op \<Rightarrow> item" where
  "inserted op =
     \<lparr>marketName = set_marketName op, name = set_name op, wear = set_wear op,
      sheetPrice = set_sheetPrice op, floatValue = set_floatValue op,
      paintSeed = set_paintSeed op, sheetTimestamp = set_sheetTimestamp op,
      row = set_row op, lastSeenAt = set_lastSeenAt op,
      imageUrl = None, steamLowest = None, steamMedian = None, steamVolume = None,
      imageUpdatedAt = None, steamUpdatedAt = None, imageError = None, steamError = None\<rparr>"

text \<open>
  The collection is a map from the unique key \<open>marketName\<close> to the document. An upsert
  updates the document the filter finds, or inserts a new one.
\<close>

definition upsertOne :: "upsert_op \<Rightarrow> (string \<rightharpoonup> item) \<Rightarrow> (string \<rightharpoonup> item)" where
  "upsertOne op db =
     (case db (set_marketName op) of
        Some doc \<Rightarrow> db(set_marketName op \<mapsto> apply_set op doc)
      | None \<Rightarrow> db(set_marketName op \<mapsto> inserted op))"

text \<open>
  \<open>Item.bulkWrite(ops, { ordered: false })\<close>: the store may run the operations in any
  order; the model runs them in the order of the list it is given, and the properties
  below are proved for every list of operations.
\<close>

definition bulkWrite :: "upsert_op list \<Rightarrow> (string \<rightharpoonup> item) \<Rightarrow> (string \<rightharpoonup> item)" where
  "bulkWrite ops db = fold upsertOne ops db"

text \<open>
  The loop of \<open>upsertFromSheet\<close> over the body rows: a row without a name is skipped,
  every other row gives one operation.
  \<^verbatim>\<open>
  for (const r of body) {
    const name = r[IDX_NAME];
    if (!name) continue;
    const wear = r[IDX_WEAR];
    const marketName = toMarketName(name, wear);
    const floatValue = numOrNull(r[IDX_FLOAT]);
    const paintSeed = intOrNull(r[IDX_SEED]);
    const sheetPrice = numOrNull(r[IDX_PRICE]);
    const sheetTimestamp = parseMDYDate(r[IDX_TS]);
    ops.push({ updateOne: { filter: { marketName }, update: { $set: {...},
      $setOnInsert: {...} }, upsert: true } });
    count++;
  }
  \<close>
\<close>

definition has_name :: "string list \<Rightarrow> bool" where
  "has_name r = (cell r 0 \<noteq> None \<and> cell r 0 \<noteq> Some [])"

definition row_op :: "int \<Rightarrow> string list \<Rightarrow> upsert_op" where
  "row_op now r =
     \<lparr>set_marketName = toMarketName (cell r 0) (cell r 1),
      set_name = or_empty (cell r 0),
      set_wear = cell r 1,
      set_sheetPrice = numOrNull (cell r 4),
      set_floatValue = numOrNull (cell r 2),
      set_paintSeed = intOrNull (cell r 3),
      set_sheetTimestamp = parseMDYDate (cell r 7),
      set_row = r,
      set_lastSeenAt = now\<rparr>"

definition sheet_ops :: "int \<Rightarrow> string list list \<Rightarrow> upsert_op list" where
  "sheet_ops now body = map (row_op now) (filter has_name body)"

text \<open>
  \<^verbatim>\<open>
  async function upsertFromSheet(rows) {
    if (!rows?.length) return { header: [], count: 0 };
    const header = rows[0] || [];
    const body = rows.slice(1);
    ...
    if (ops.length) await Item.bulkWrite(ops, { ordered: false });
    return { header, count };
  }
  \<close>
  The result is the header and the count, with the collection after the write; the
  first argument is the clock's time.
\<close>

definition upsertFromSheet :: "int \<Rightarrow> string list list \<Rightarrow> (string \<rightharpoonup> item) \<Rightarrow> (string list \<times> nat) \<times> (string \<rightharpoonup> item)" where
  "upsertFromSheet now rows db =
     (case rows of
        [] \<Rightarrow> (([], 0), db)
      | header # body \<Rightarrow>
          ((header, length (sheet_ops now body)), bulkWrite (sheet_ops now body) db))"

text \<open>The eight Steam fields of a document.\<close>

definition enrichment :: "item \<Rightarrow> string option \<times> rat option \<times> rat option \<times> rat option \<times> int option \<times> int option \<times> error option \<times> error option" where
  "enrichment doc =
     (imageUrl doc, steamLowest doc, steamMedian doc, steamVolume doc,
      imageUpdatedAt doc, steamUpdatedAt doc, imageError doc, steamError doc)"

text \<open>The eight fields the sheet gives, and \<open>lastSeenAt\<close>.\<close>

definition sheet_fields :: "item \<Rightarrow> string \<times> string \<times> string option \<times> rat option \<times> rat option \<times> int option \<times> local_date option \<times> string list \<times> int" where
  "sheet_fields doc =
     (marketName doc, name doc, wear doc, sheetPrice doc, floatValue doc, paintSeed doc,
      sheetTimestamp doc, row doc, lastSeenAt doc)"

definition no_enrichment :: "string option \<times> rat option \<times> rat option \<times> rat option \<times> int option \<times> int option \<times> error option \<times> error option" where
  "no_enrichment = (None, None, None, None, None, None, None, None)"

text \<open>A document with all its Steam fields set, for the examples.\<close>

definition example_item :: item where
  "example_item =
     \<lparr>marketName = ''Glock'', name = ''Glock'', wear = None, sheetPrice = Some 3,
      floatValue = None, paintSeed = None, sheetTimestamp = None, row = [''Glock''],
      lastSeenAt = 0,
      imageUrl = Some ''https://x/economy/image/abc/360fx360f'', steamLowest = Some 2,
      steamMedian = Some 3, steamVolume = Some 40,
      imageUpdatedAt = Some 0, steamUpdatedAt = Some 0, imageError = None,
      steamError = Some (SteamSearchFailed 429)\<rparr>"

section \<open>The persistent variant: background refresh\<close>

text \<open>
  The upstream of the persistent variant: the answer of the search endpoint to a
  request for a market name that is answered at a given time, the two regular
  expressions of strategy B, and what \<open>fetchSteamPrice\<close> resolves to (\<open>Inl\<close>: it rejects).
\<close>

record price =
  lowest :: "rat option"
  median :: "rat option"
  volume :: "rat option"

record upstream =
  up_search :: "int \<Rightarrow> string \<Rightarrow> response"
  up_scrape :: "string \<Rightarrow> string option"
  up_price :: "int \<Rightarrow> string \<Rightarrow> error + price"

text \<open>
  \<open>fetchSteamPrice\<close> as the source has it, a stub:
  \<open>async function fetchSteamPrice(_marketName) { return { lowest: null, median: null, volume: null }; }\<close>
\<close>

definition fetchSteamPrice_stub :: "int \<Rightarrow> string \<Rightarrow> error + price" where
  "fetchSteamPrice_stub t m = Inr \<lparr>lowest = None, median = None, volume = None\<rparr>"

text \<open>
  What \<open>fetchSteamImage\<close> of the persistent variant makes of the answer that arrives at
  time \<open>t\<close>: it has no cache.
\<close>

definition image_result :: "upstream \<Rightarrow> int \<Rightarrow> string \<Rightarrow> error + string option" where
  "image_result up t m =
     (case read_response (up_search up t m) of
        Inl e \<Rightarrow> Inl e
      | Inr data \<Rightarrow> resolve_persistent (up_scrape up) data)"

text \<open>
  The state of the process: the Item collection, the clock, the market names sent to
  the search endpoint so far, and the set \<open>inFlight\<close>.
\<close>

record pstate =
  store :: "string \<rightharpoonup> item"
  now_ms :: int
  searches :: "string list"
  inFlight :: "string set"

definition PRICE_TTL_MS :: int where
  "PRICE_TTL_MS = 30 * 60 * 1000"

definition IMAGE_TTL_MS :: int where
  "IMAGE_TTL_MS = 7 * 24 * 60 * 60 * 1000"

text \<open>
  \<^verbatim>\<open>
  function isStale(dateObj, ttlMs) {
    if (!dateObj) return true;
    return Date.now() - new Date(dateObj).getTime() > ttlMs;
  }
  \<close>
\<close>

definition isStale :: "int option \<Rightarrow> int \<Rightarrow> int \<Rightarrow> bool" where
  "isStale dateObj ttlMs now = (case dateObj of None \<Rightarrow> True | Some t \<Rightarrow> now - t > ttlMs)"

text \<open>
  The four \<open>Item.updateOne({ marketName }, { $set: ... })\<close> of \<open>refreshOne\<close>; a document
  that is not there is not created.
\<close>

datatype update =
    SetImage "string option" int
  | SetImageError error
  | SetPrice price int
  | SetPriceError error

fun apply_update :: "update \<Rightarrow> item \<Rightarrow> item" where
  "apply_update (SetImage url t) doc =
     doc\<lparr>imageUrl := url, imageUpdatedAt := Some t, imageError := None\<rparr>"
| "apply_update (SetImageError e) doc = doc\<lparr>imageError := Some e\<rparr>"
| "apply_update (SetPrice p t) doc =
     doc\<lparr>steamLowest := lowest p, steamMedian := median p, steamVolume := volume p,
         steamUpdatedAt := Some t, steamError := None\<rparr>"
| "apply_update (SetPriceError e) doc = doc\<lparr>steamError := Some e\<rparr>"

definition updateOne :: "string \<Rightarrow> update \<Rightarrow> (string \<rightharpoonup> item) \<Rightarrow> (string \<rightharpoonup> item)" where
  "updateOne m u db = (case db m of None \<Rightarrow> db | Some doc \<Rightarrow> db(m \<mapsto> apply_update u doc))"

text \<open>
  \<open>refreshOne\<close> runs in pieces: the code between two \<open>await\<close>s runs without
  interruption, and at an \<open>await\<close> other calls may run. A call is at one of these
  places: not yet called; waiting for \<open>findOne\<close>; waiting for the search endpoint (with
  the document it read); waiting for the \<open>updateOne\<close> of the image section; waiting for
  \<open>fetchSteamPrice\<close>; waiting for the \<open>updateOne\<close> of the price section; returned.
  \<^verbatim>\<open>
  async function refreshOne(marketName, { refreshPrice, refreshImage }) {
    if (inFlight.has(marketName)) return;
    inFlight.add(marketName);
    try {
      const doc = await Item.findOne({ marketName }).lean();
      if (!doc) return;
      if (refreshImage && (isStale(doc.imageUpdatedAt, IMAGE_TTL_MS) || !doc.imageUrl)) {
        try {
          const imageUrl = await fetchSteamImage(marketName);
          await Item.updateOne({ marketName },
            { $set: { imageUrl, imageUpdatedAt: new Date(), imageError: null } });
        } catch (e) {
          await Item.updateOne({ marketName }, { $set: { imageError: String(e) } });
        }
      }
      if (refreshPrice && isStale(doc.steamUpdatedAt, PRICE_TTL_MS)) {
        try {
          const p = await fetchSteamPrice(marketName);
          await Item.updateOne({ marketName }, { $set: { steamLowest: p.lowest,
            steamMedian: p.median, steamVolume: p.volume, steamUpdatedAt: new Date(),
            steamError: null } });
        } catch (e) {
          await Item.updateOne({ marketName }, { $set: { steamError: String(e) } });
        }
      }
    } finally {
      inFlight.delete(marketName);
    }
  }
  \<close>
  The store answers every operation; a read or a write takes effect when the call goes
  on behind its \<open>await\<close>.
\<close>

datatype phase =
    Start
  | Finding
  | AwaitImage item
  | ImageWriting item update
  | AwaitPrice item
  | PriceWriting update
  | Done

definition finish :: "string \<Rightarrow> pstate \<Rightarrow> pstate" where
  "finish m st = st\<lparr>inFlight := inFlight st - {m}\<rparr>"

definition price_section :: "string \<Rightarrow> bool \<Rightarrow> item \<Rightarrow> pstate \<Rightarrow> phase \<times> pstate" where
  "price_section m refreshPrice doc st =
     (if refreshPrice \<and> isStale (steamUpdatedAt doc) PRICE_TTL_MS (now_ms st)
      then (AwaitPrice doc, st)
      else (Done, finish m st))"

definition image_section :: "string \<Rightarrow> bool \<Rightarrow> bool \<Rightarrow> item \<Rightarrow> pstate \<Rightarrow> phase \<times> pstate" where
  "image_section m refreshPrice refreshImage doc st =
     (if refreshImage \<and>
         (isStale (imageUpdatedAt doc) IMAGE_TTL_MS (now_ms st)
          \<or> imageUrl doc = None \<or> imageUrl doc = Some [])
      then (AwaitImage doc, st\<lparr>searches := searches st @ [m]\<rparr>)
      else price_section m refreshPrice doc st)"

fun task_step :: "upstream \<Rightarrow> string \<Rightarrow> bool \<Rightarrow> bool \<Rightarrow> phase \<Rightarrow> pstate \<Rightarrow> phase \<times> pstate" where
  "task_step up m refreshPrice refreshImage Start st =
     (if m \<in> inFlight st then (Done, st)
      else (Finding, st\<lparr>inFlight := insert m (inFlight st)\<rparr>))"
| "task_step up m refreshPrice refreshImage Finding st =
     (case store st m of
        None \<Rightarrow> (Done, finish m st)
      | Some doc \<Rightarrow> image_section m refreshPrice refreshImage doc st)"
| "task_step up m refreshPrice refreshImage (AwaitImage doc) st =
     (ImageWriting doc
        (case image_result up (now_ms st) m of
           Inr url \<Rightarrow> SetImage url (now_ms st)
         | Inl e \<Rightarrow> SetImageError e),
      st)"
| "task_step up m refreshPrice refreshImage (ImageWriting doc u) st =
     price_section m refreshPrice doc (st\<lparr>store := updateOne m u (store st)\<rparr>)"
| "task_step up m refreshPrice refreshImage (AwaitPrice doc) st =
     (PriceWriting
        (case up_price up (now_ms st) m of
           Inr p \<Rightarrow> SetPrice p (now_ms st)
         | Inl e \<Rightarrow> SetPriceError e),
      st)"
| "task_step up m refreshPrice refreshImage (PriceWriting u) st =
     (Done, finish m (st\<lparr>store := updateOne m u (store st)\<rparr>))"
| "task_step up m refreshPrice refreshImage Done st = (Done, st)"



text \<open>
  Several calls of \<open>refreshOne\<close> at once (the request path starts one for each of the
  first items and does not wait; the background loop starts its own): an event lets
  time pass, or lets one call run its next piece.
\<close>

record call =
  call_marketName :: string
  call_refreshPrice :: bool
  call_refreshImage :: bool
  call_phase :: phase

datatype event = Tick nat | Run nat

fun sys_step :: "upstream \<Rightarrow> event \<Rightarrow> call list \<times> pstate \<Rightarrow> call list \<times> pstate" where
  "sys_step up (Tick d) (cs, st) = (cs, st\<lparr>now_ms := now_ms st + int d\<rparr>)"
| "sys_step up (Run i) (cs, st) =
     (if i < length cs then
        (let c = cs ! i;
             r = task_step up (call_marketName c) (call_refreshPrice c) (call_refreshImage c)
                   (call_phase c) st
         in (cs[i := c\<lparr>call_phase := fst r\<rparr>], snd r))
      else (cs, st))"

definition sys_run :: "upstream \<Rightarrow> event list \<Rightarrow> call list \<times> pstate \<Rightarrow> call list \<times> pstate" where
  "sys_run up evs c = fold (sys_step up) evs c"



text \<open>Two upstreams and a state for the examples.\<close>

definition upstream_image_fails :: upstream where
  "upstream_image_fails =
     \<lparr>up_search = (\<lambda>t m. HttpStatus 429), up_scrape = (\<lambda>h. None),
      up_price = fetchSteamPrice_stub\<rparr>"


definition example_pstate :: pstate where
  "example_pstate =
     \<lparr>store = [''Glock'' \<mapsto> example_item], now_ms = 10000000000, searches = [],
      inFlight = {}\<rparr>"


definition two_calls :: "call list" where
  "two_calls =
     [\<lparr>call_marketName = ''Glock'', call_refreshPrice = False, call_refreshImage = True,
        call_phase = Start\<rparr>,
      \<lparr>call_marketName = ''Glock'', call_refreshPrice = True, call_refreshImage = True,
        call_phase = Start\<rparr>]"







section \<open>Bounded concurrency: mapLimit\<close>

text \<open>
  \<^verbatim>\<open>
  async function mapLimit(items, limit, fn) {
    const results = new Array(items.length);
    let idx = 0;
    async function worker() {
      while (idx < items.length) {
        const my = idx++;
        results[my] = await fn(items[my], my);
      }
    }
    const workers = Array.from({ length: Math.min(limit, items.length) }, worker);
    await Promise.all(workers);
    return results;
  }
  \<close>
  A worker runs until its \<open>await\<close>; there it waits for the promise of the transform it
  has called, and other workers run. A worker is waiting for the transform of an index,
  has left its loop, or has failed because the transform rejected. The state holds the
  variables \<open>results\<close> (a slot that is still empty is \<open>None\<close>) and \<open>idx\<close>, the workers,
  and the log of the indices on which the transform has been called. The transform
  \<open>fn\<close> gives what its promise settles to: \<open>Inr\<close> a value, or \<open>Inl\<close> a rejection.
\<close>

datatype 'e worker = Awaiting nat | Finished | Failed 'e

record ('b, 'e) pool =
  results :: "'b option list"
  idx :: nat
  calls :: "nat list"
  workers :: "'e worker list"

text \<open>
  The head of the worker's loop, up to the \<open>await\<close>: with an index left, the worker
  takes it, calls the transform on it and waits; without, it ends.
\<close>

definition worker_loop :: "nat \<Rightarrow> ('b, 'e) pool \<Rightarrow> 'e worker \<times> ('b, 'e) pool" where
  "worker_loop n st =
     (if idx st < n
      then (Awaiting (idx st), st\<lparr>idx := Suc (idx st), calls := calls st @ [idx st]\<rparr>)
      else (Finished, st))"

text \<open>\<open>Array.from({ length: k }, worker)\<close> starts the workers one after the other.\<close>

fun start_workers :: "nat \<Rightarrow> nat \<Rightarrow> ('b, 'e) pool \<Rightarrow> ('b, 'e) pool" where
  "start_workers n 0 st = st"
| "start_workers n (Suc k) st =
     start_workers n k
       ((snd (worker_loop n st))\<lparr>workers := workers st @ [fst (worker_loop n st)]\<rparr>)"

text \<open>
  The promise worker \<open>w\<close> waits for settles: with a value, the worker stores it in
  its slot and goes round its loop; with a rejection, the worker fails.
\<close>

definition settle :: "('a \<Rightarrow> nat \<Rightarrow> 'e + 'b) \<Rightarrow> 'a list \<Rightarrow> nat \<Rightarrow> ('b, 'e) pool \<Rightarrow> ('b, 'e) pool" where
  "settle fn items w st =
     (case workers st ! w of
        Awaiting my \<Rightarrow>
          (case fn (items ! my) my of
             Inr v \<Rightarrow>
               (let st1 = st\<lparr>results := (results st)[my := Some v]\<rparr>;
                    r = worker_loop (length items) st1
                in (snd r)\<lparr>workers := (workers st1)[w := fst r]\<rparr>)
           | Inl e \<Rightarrow> st\<lparr>workers := (workers st)[w := Failed e]\<rparr>)
      | _ \<Rightarrow> st)"

text \<open>
  The order in which the transforms complete is a list of choices: a choice \<open>k\<close> lets
  the promise of one of the waiting workers settle, the \<open>k\<close>-th of them (counted round).
\<close>

fun is_awaiting :: "'e worker \<Rightarrow> bool" where
  "is_awaiting (Awaiting my) = True"
| "is_awaiting _ = False"

definition awaiting_workers :: "('b, 'e) pool \<Rightarrow> nat list" where
  "awaiting_workers st = filter (\<lambda>w. is_awaiting (workers st ! w)) [0..<length (workers st)]"

definition pick :: "('b, 'e) pool \<Rightarrow> nat \<Rightarrow> nat option" where
  "pick st k =
     (if awaiting_workers st = [] then None
      else Some (awaiting_workers st ! (k mod length (awaiting_workers st))))"

text \<open>
  What the promise of \<open>mapLimit\<close> has become: fulfilled with \<open>results\<close> when every worker
  has ended (\<open>Promise.all\<close>), rejected when a worker fails, pending while the list of
  choices has ended before either.
\<close>

datatype ('b, 'e) outcome = Pending | Rejected 'e | Fulfilled "'b option list"

fun is_failed :: "'e worker \<Rightarrow> 'e option" where
  "is_failed (Failed e) = Some e"
| "is_failed _ = None"

fun mapLimit_run :: "('a \<Rightarrow> nat \<Rightarrow> 'e + 'b) \<Rightarrow> 'a list \<Rightarrow> nat list \<Rightarrow> ('b, 'e) pool \<Rightarrow> ('b, 'e) outcome \<times> ('b, 'e) pool" where
  "mapLimit_run fn items [] st =
     (if list_all (\<lambda>w. w = Finished) (workers st) then (Fulfilled (results st), st)
      else (Pending, st))"
| "mapLimit_run fn items (k # ks) st =
     (if list_all (\<lambda>w. w = Finished) (workers st) then (Fulfilled (results st), st)
      else (case pick st k of
              None \<Rightarrow> (Pending, st)
            | Some w \<Rightarrow>
                (case is_failed (workers (settle fn items w st) ! w) of
                   Some e \<Rightarrow> (Rejected e, settle fn items w st)
                 | None \<Rightarrow> mapLimit_run fn items ks (settle fn items w st))))"

definition mapLimit :: "('a \<Rightarrow> nat \<Rightarrow> 'e + 'b) \<Rightarrow> 'a list \<Rightarrow> nat \<Rightarrow> nat list \<Rightarrow> ('b, 'e) outcome \<times> ('b, 'e) pool" where
  "mapLimit fn items limit sched =
     mapLimit_run fn items sched
       (start_workers (length items) (min limit (length items))
          \<lparr>results = replicate (length items) None, idx = 0, calls = [], workers = []\<rparr>)"

text \<open>
  The invariant of the pool of \<open>m\<close> workers over \<open>n\<close> items, when the transform of item
  \<open>i\<close> gives \<open>g i\<close>: the transform has been called on the indices below \<open>idx\<close>, once on
  each and in order; no worker has failed; the waiting workers wait for different
  indices below \<open>idx\<close>; a slot is filled, with the value of its own item, when its index
  is below \<open>idx\<close> and no worker waits for it; and a worker has only ended when no index
  is left.
\<close>

definition pool_inv :: "(nat \<Rightarrow> 'b) \<Rightarrow> nat \<Rightarrow> nat \<Rightarrow> 'b option list \<Rightarrow> nat \<Rightarrow> nat list \<Rightarrow> 'e worker list \<Rightarrow> bool" where
  "pool_inv g n m rs ix cl ws =
     (length rs = n \<and> ix \<le> n \<and> cl = [0..<ix] \<and> length ws = m
      \<and> (\<forall>w < m. ws ! w = Finished \<or> (\<exists>my. ws ! w = Awaiting my))
      \<and> (\<forall>w < m. \<forall>my. ws ! w = Awaiting my \<longrightarrow> my < ix)
      \<and> (\<forall>w < m. \<forall>w' < m. \<forall>my. ws ! w = Awaiting my \<and> ws ! w' = Awaiting my \<longrightarrow> w = w')
      \<and> (\<forall>i < n. rs ! i =
            (if i < ix \<and> (\<forall>w < m. ws ! w \<noteq> Awaiting i) then Some (g i) else None))
      \<and> ((\<exists>w < m. ws ! w = Finished) \<longrightarrow> ix = n))"

definition pool_ok :: "(nat \<Rightarrow> 'b) \<Rightarrow> nat \<Rightarrow> nat \<Rightarrow> ('b, 'e) pool \<Rightarrow> bool" where
  "pool_ok g n m st = pool_inv g n m (results st) (idx st) (calls st) (workers st)"

text \<open>The number of completions that are still to come.\<close>

definition remaining :: "nat \<Rightarrow> ('b, 'e) pool \<Rightarrow> nat" where
  "remaining n st = (n - idx st) + length (awaiting_workers st)"

section \<open>Properties of the CSV parser\<close>

lemma parseCsvLine_loop_Cons:
  "parseCsvLine_loop (ch # rest) out cur q =
     (if ch = DQUOTE then
        (if q \<and> rest \<noteq> [] \<and> hd rest = DQUOTE
         then parseCsvLine_loop (tl rest) out (cur @ [DQUOTE]) q
         else parseCsvLine_loop rest out cur (\<not> q))
      else if ch = COMMA \<and> \<not> q then parseCsvLine_loop rest (out @ [cur]) [] q
      else parseCsvLine_loop rest out (cur @ [ch]) q)"
  by (cases rest) simp_all

lemma DQUOTE_neq_COMMA: "DQUOTE \<noteq> COMMA"
  by (simp add: DQUOTE_def COMMA_def)

lemma parseCsvLine_loop_escape:
  assumes "rest = [] \<or> hd rest \<noteq> DQUOTE"
  shows "parseCsvLine_loop (csv_escape c @ DQUOTE # rest) out cur True =
         parseCsvLine_loop rest out (cur @ c) False"
  using assms
proof (induction c arbitrary: cur)
  case Nil
  then show ?case
    by (auto simp: csv_escape_def parseCsvLine_loop_Cons)
next
  case (Cons ch c)
  have step: "parseCsvLine_loop (csv_escape (ch # c) @ DQUOTE # rest) out cur True =
              parseCsvLine_loop (csv_escape c @ DQUOTE # rest) out (cur @ [ch]) True"
    by (simp add: csv_escape_def parseCsvLine_loop_Cons)
  show ?case
    using Cons.IH [OF Cons.prems, of "cur @ [ch]"] step by simp
qed

lemma parseCsvLine_loop_quote:
  assumes "rest = [] \<or> hd rest \<noteq> DQUOTE"
  shows "parseCsvLine_loop (csv_quote c @ rest) out [] False =
         parseCsvLine_loop rest out c False"
proof -
  have "parseCsvLine_loop (csv_quote c @ rest) out [] False =
        parseCsvLine_loop (csv_escape c @ DQUOTE # rest) out [] True"
    by (simp add: csv_quote_def parseCsvLine_loop_Cons)
  then show ?thesis
    using parseCsvLine_loop_escape [OF assms, of c out "[]"] by simp
qed

lemma parseCsvLine_loop_csv_line:
  "cells \<noteq> [] \<Longrightarrow> parseCsvLine_loop (csv_line cells) out [] False = out @ cells"
proof (induction cells arbitrary: out rule: csv_line.induct)
  case 1
  then show ?case by simp
next
  case (2 c)
  show ?case
    using parseCsvLine_loop_quote [of "[]" c out] by simp
next
  case (3 c d cs)
  have "parseCsvLine_loop (csv_line (c # d # cs)) out [] False =
        parseCsvLine_loop (COMMA # csv_line (d # cs)) out c False"
    using parseCsvLine_loop_quote [of "COMMA # csv_line (d # cs)" c out]
    by (simp add: DQUOTE_neq_COMMA [symmetric])
  also have "\<dots> = parseCsvLine_loop (csv_line (d # cs)) (out @ [c]) [] False"
    using DQUOTE_neq_COMMA by (simp add: parseCsvLine_loop_Cons)
  also have "\<dots> = (out @ [c]) @ d # cs"
    using "3.IH" [of "out @ [c]"] by simp
  finally show ?case by simp
qed

lemma trim_untrimmed: "untrimmed c \<Longrightarrow> trim c = c"
proof (cases c)
  case Nil
  then show ?thesis by (simp add: trim_def)
next
  case (Cons a as)
  assume u: "untrimmed c"
  with Cons have h: "\<not> isWhiteSpace (hd c)" and l: "\<not> isWhiteSpace (last c)"
    by (auto simp: untrimmed_def)
  from Cons h have "dropWhile isWhiteSpace c = c" by simp
  moreover have "dropWhile isWhiteSpace (rev c) = rev c"
  proof (cases "rev c")
    case Nil
    then show ?thesis by simp
  next
    case (Cons b bs)
    with l hd_rev [of c] have "\<not> isWhiteSpace b" by simp
    with Cons show ?thesis by simp
  qed
  ultimately show ?thesis by (simp add: trim_def)
qed

lemma trim_shorter:
  assumes "c \<noteq> []" and "isWhiteSpace (hd c) \<or> isWhiteSpace (last c)"
  shows "length (trim c) < length c"
proof (cases "isWhiteSpace (hd c)")
  case True
  with assms(1) have "dropWhile isWhiteSpace c = dropWhile isWhiteSpace (tl c)"
    by (cases c) simp_all
  then have "length (dropWhile isWhiteSpace c) \<le> length (tl c)"
    using length_dropWhile_le [of isWhiteSpace "tl c"] by simp
  moreover have "length (trim c) \<le> length (dropWhile isWhiteSpace c)"
    using length_dropWhile_le [of isWhiteSpace "rev (dropWhile isWhiteSpace c)"]
    by (simp add: trim_def)
  ultimately show ?thesis using assms(1) by (cases c) simp_all
next
  case False
  with assms have l: "isWhiteSpace (last c)" and d: "dropWhile isWhiteSpace c = c"
    by (cases c; simp)+
  from assms(1) obtain b bs where r: "rev c = b # bs"
    by (cases "rev c") simp_all
  with l hd_rev [of c] have "isWhiteSpace b" by simp
  with r have "dropWhile isWhiteSpace (rev c) = dropWhile isWhiteSpace bs" by simp
  then have "length (dropWhile isWhiteSpace (rev c)) \<le> length bs"
    using length_dropWhile_le [of isWhiteSpace bs] by simp
  moreover from r have "length c = Suc (length bs)"
    by (metis length_Cons length_rev)
  ultimately show ?thesis by (simp add: trim_def d)
qed

lemma trim_fixed_iff: "(trim c = c) = untrimmed c"
proof
  assume f: "trim c = c"
  show "untrimmed c"
  proof (rule ccontr)
    assume "\<not> untrimmed c"
    then have "c \<noteq> []" "isWhiteSpace (hd c) \<or> isWhiteSpace (last c)"
      by (auto simp: untrimmed_def)
    from trim_shorter [OF this] f show False by simp
  qed
next
  assume "untrimmed c"
  then show "trim c = c" by (rule trim_untrimmed)
qed

lemma split_newlines_nonempty: "split_newlines s cur \<noteq> []"
  by (induction s cur rule: split_newlines.induct) auto

lemma parseCsv_nonempty: "parseCsv text \<noteq> []"
  by (simp add: parseCsv_def split_newlines_nonempty)

text \<open>
  Claim C7 (parsing an empty CSV text yields zero rows): the code returns one row that
  holds one empty cell, since splitting the empty string gives one empty line and the
  line parser always pushes the cell it is collecting.
\<close>

theorem parseCsv_empty_one_row: "parseCsv [] = [[[]]]"
  by (simp add: parseCsv_def parseCsvLine_def trim_def)

text \<open>
  Claim C8, as stated (a quoted cell with an embedded comma comes back character for
  character), fails on a cell that starts or ends with white space: the line
  \<open>" a,b"\<close>, whose one cell is \<open> a,b\<close> with a space in front, parses to the cell
  \<open>a,b\<close>.
\<close>

theorem parseCsvLine_roundtrip_counterexample:
  "csv_line ['' a,b''] = [DQUOTE, CHR '' '', CHR ''a'', COMMA, CHR ''b'', DQUOTE]
   \<and> parseCsvLine (csv_line ['' a,b'']) = [''a,b'']
   \<and> parseCsvLine (csv_line ['' a,b'']) \<noteq> ['' a,b'']"
  by (simp add: parseCsvLine_def csv_quote_def csv_escape_def trim_def isWhiteSpace_def
      DQUOTE_def COMMA_def)

text \<open>
  Claim C8, amended: parsing a line of quoted cells (embedded commas and doubled quotes
  included) returns every cell's content with the white space at its two ends trimmed;
  the content comes back character for character exactly when no cell starts or ends
  with white space.
\<close>

theorem parseCsvLine_roundtrip:
  assumes "cells \<noteq> []"
  shows "parseCsvLine (csv_line cells) = map trim cells \<and>
         (parseCsvLine (csv_line cells) = cells) = list_all untrimmed cells"
proof -
  have t: "parseCsvLine (csv_line cells) = map trim cells"
    using parseCsvLine_loop_csv_line [OF assms, of "[]"] by (simp add: parseCsvLine_def)
  have "(map trim cs = cs) = list_all untrimmed cs" for cs
    by (induction cs) (simp_all add: trim_fixed_iff)
  with t show ?thesis by simp
qed

theorem parseCsvLine_roundtrip_witness:
  "parseCsvLine (csv_line [''a,b'', [CHR ''x'', DQUOTE, CHR ''y''], '' z '']) =
     [''a,b'', [CHR ''x'', DQUOTE, CHR ''y''], ''z'']
   \<and> parseCsvLine (csv_line [''a,b'', [DQUOTE]]) = [''a,b'', [DQUOTE]]"
proof -
  have 1: "[''a,b'', [CHR ''x'', DQUOTE, CHR ''y''], '' z ''] \<noteq> []" by simp
  have 2: "[''a,b'', [DQUOTE]] \<noteq> []" by simp
  have 3: "list_all untrimmed [''a,b'', [DQUOTE]]"
    by (simp add: untrimmed_def isWhiteSpace_def DQUOTE_def)
  have 4: "map trim [''a,b'', [CHR ''x'', DQUOTE, CHR ''y''], '' z ''] =
           [''a,b'', [CHR ''x'', DQUOTE, CHR ''y''], ''z'']"
    by (simp add: trim_def isWhiteSpace_def DQUOTE_def)
  have a: "parseCsvLine (csv_line [''a,b'', [CHR ''x'', DQUOTE, CHR ''y''], '' z '']) =
           [''a,b'', [CHR ''x'', DQUOTE, CHR ''y''], ''z'']"
    using conjunct1 [OF parseCsvLine_roundtrip [OF 1]] 4 by (simp only:)
  have b: "parseCsvLine (csv_line [''a,b'', [DQUOTE]]) = [''a,b'', [DQUOTE]]"
    using conjunct2 [OF parseCsvLine_roundtrip [OF 2]] 3 by simp
  show ?thesis using a b by (rule conjI)
qed

section \<open>Properties of the image size upgrade\<close>

lemma not_isDigit_f: "\<not> isDigit (CHR ''f'')"
  by (simp add: isDigit_def)

lemma not_isDigit_SLASH: "\<not> isDigit SLASH"
  by (simp add: isDigit_def SLASH_def)

lemma takeWhile_digits_f:
  "\<forall>c \<in> set d. isDigit c \<Longrightarrow> takeWhile isDigit (d @ CHR ''f'' # r) = d"
  by (simp add: takeWhile_append2 not_isDigit_f)

lemma match_size_intro:
  assumes "d1 \<noteq> []" "\<forall>c \<in> set d1. isDigit c" "d2 \<noteq> []" "\<forall>c \<in> set d2. isDigit c"
  shows "match_size (SLASH # d1 @ ''fx'' @ d2 @ CHR ''f'' # rest) =
         Some (length d1 + length d2 + 4)"
proof -
  have t1: "takeWhile isDigit (d1 @ CHR ''f'' # CHR ''x'' # d2 @ CHR ''f'' # rest) = d1"
    by (rule takeWhile_digits_f [OF assms(2)])
  have t2: "takeWhile isDigit (d2 @ CHR ''f'' # rest) = d2"
    by (rule takeWhile_digits_f [OF assms(4)])
  show ?thesis
    using assms(1) assms(3) by (simp add: match_size_def t1 t2 Let_def)
qed

lemma match_size_elim:
  assumes "match_size s = Some n"
  shows "\<exists>d1 d2 rest. s = SLASH # d1 @ ''fx'' @ d2 @ CHR ''f'' # rest \<and> d1 \<noteq> [] \<and> d2 \<noteq> []
           \<and> (\<forall>c \<in> set d1. isDigit c) \<and> (\<forall>c \<in> set d2. isDigit c)
           \<and> n = length d1 + length d2 + 4"
proof -
  from assms obtain r where s: "s = SLASH # r"
    by (auto simp: match_size_def split: list.splits if_splits)
  define d1 where "d1 = takeWhile isDigit r"
  have r: "r = d1 @ drop (length d1) r"
    by (simp add: d1_def dropWhile_eq_drop [symmetric])
  from assms s have n1: "d1 \<noteq> []"
    by (auto simp: match_size_def d1_def Let_def split: if_splits)
  from assms s n1 obtain r2 where r2: "drop (length d1) r = ''fx'' @ r2"
    by (auto simp: match_size_def d1_def Let_def split: list.splits if_splits)
  define d2 where "d2 = takeWhile isDigit r2"
  have r2': "r2 = d2 @ drop (length d2) r2"
    by (simp add: d2_def dropWhile_eq_drop [symmetric])
  from assms s n1 r2 have n2: "d2 \<noteq> []"
    by (auto simp: match_size_def d1_def d2_def Let_def split: list.splits if_splits)
  from assms s n1 r2 n2 obtain r3 where r3: "drop (length d2) r2 = CHR ''f'' # r3"
    and n: "n = length d1 + length d2 + 4"
    by (auto simp: match_size_def d1_def d2_def Let_def split: list.splits if_splits)
  have "s = SLASH # d1 @ ''fx'' @ d2 @ CHR ''f'' # r3"
    using s r r2 r2' r3 by (metis append_assoc)
  moreover have "\<forall>c \<in> set d1. isDigit c" "\<forall>c \<in> set d2. isDigit c"
    by (auto simp: d1_def d2_def dest: set_takeWhileD)
  ultimately show ?thesis using n1 n2 n by blast
qed

lemma digits_no_SLASH: "\<forall>c \<in> set d. isDigit c \<Longrightarrow> SLASH \<notin> set d"
  using not_isDigit_SLASH by blast

lemma match_SIZE360: "match_size (SIZE360 @ t) = Some 10"
  using match_size_intro [of "''360''" "''360''" t]
  by (simp add: SIZE360_def SLASH_def isDigit_def)

lemma match_size_SLASH: "match_size (c # s) = Some n \<Longrightarrow> c = SLASH"
  by (auto simp: match_size_def split: if_splits)

subsection \<open>The anchored replacement\<close>

lemma replace_anchored_SIZE360: "replace_anchored SIZE360 = SIZE360"
  using match_SIZE360 [of "[]"] by (simp add: SIZE360_def)

lemma replace_anchored_no_SLASH:
  "SLASH \<notin> set (replace_anchored s) \<Longrightarrow> replace_anchored s = s"
  by (induction s) (auto simp: SIZE360_def SLASH_def split: if_splits)

lemma full_match_no_SLASH:
  assumes "match_size (c # s) = Some (length (c # s))"
  shows "SLASH \<notin> set s"
proof -
  from match_size_elim [OF assms] obtain d1 d2 rest where
    s: "c # s = SLASH # d1 @ ''fx'' @ d2 @ CHR ''f'' # rest"
    and d: "\<forall>c \<in> set d1. isDigit c" "\<forall>c \<in> set d2. isDigit c"
    and n: "length (c # s) = length d1 + length d2 + 4"
    by blast
  from s n have "rest = []" by (cases rest) auto
  with s have "s = d1 @ ''fx'' @ d2 @ ''f''" by simp
  then show ?thesis
    using digits_no_SLASH [OF d(1)] digits_no_SLASH [OF d(2)] by (auto simp: SLASH_def)
qed

lemma replace_anchored_idem: "replace_anchored (replace_anchored s) = replace_anchored s"
proof (induction s)
  case Nil
  show ?case by simp
next
  case (Cons c s)
  show ?case
  proof (cases "match_size (c # s) = Some (length (c # s))")
    case True
    then show ?thesis by (simp add: replace_anchored_SIZE360)
  next
    case False
    have no: "match_size (c # replace_anchored s) \<noteq> Some (length (c # replace_anchored s))"
    proof
      assume m: "match_size (c # replace_anchored s) = Some (length (c # replace_anchored s))"
      from full_match_no_SLASH [OF m] have "replace_anchored s = s"
        by (rule replace_anchored_no_SLASH)
      with m False show False by simp
    qed
    from False have "replace_anchored (c # s) = c # replace_anchored s" by simp
    moreover from no have "replace_anchored (c # replace_anchored s) =
        c # replace_anchored (replace_anchored s)" by simp
    ultimately show ?thesis using Cons.IH by simp
  qed
qed

subsection \<open>The global replacement\<close>

lemma replace_global_SIZE360: "replace_global (SIZE360 @ t) = SIZE360 @ replace_global t"
proof -
  have e: "SIZE360 @ t = SLASH # (''360fx360f'' @ t)"
    by (simp add: SIZE360_def SLASH_def)
  have m: "match_size (SLASH # (''360fx360f'' @ t)) = Some 10"
    using match_SIZE360 [of t] by (simp only: e)
  have "replace_global (SLASH # (''360fx360f'' @ t)) =
        SIZE360 @ replace_global (drop (10 - 1) (''360fx360f'' @ t))"
    by (simp only: replace_global.simps m option.case)
  also have "drop (10 - 1) (''360fx360f'' @ t) = t" by simp
  finally show ?thesis by (simp only: e)
qed

lemma takeWhile_replace_global:
  "takeWhile (\<lambda>c. c \<noteq> SLASH) (replace_global s) = takeWhile (\<lambda>c. c \<noteq> SLASH) s"
proof (induction s rule: replace_global.induct)
  case 1
  show ?case by simp
next
  case (2 c s)
  show ?case
  proof (cases "match_size (c # s)")
    case None
    with 2 show ?thesis by simp
  next
    case (Some n)
    then have "c = SLASH" by (rule match_size_SLASH)
    with Some show ?thesis by (simp add: SIZE360_def SLASH_def)
  qed
qed

lemma no_SLASH_prefix:
  assumes "t = p @ r" "SLASH \<notin> set p"
    "takeWhile (\<lambda>c. c \<noteq> SLASH) t = takeWhile (\<lambda>c. c \<noteq> SLASH) s"
  shows "\<exists>r'. s = p @ r'"
proof -
  have "x \<in> set p \<Longrightarrow> x \<noteq> SLASH" for x
    using assms(2) by auto
  then have "takeWhile (\<lambda>c. c \<noteq> SLASH) t = p @ takeWhile (\<lambda>c. c \<noteq> SLASH) r"
    using assms(1) by (simp add: takeWhile_append2)
  then have "s = p @ takeWhile (\<lambda>c. c \<noteq> SLASH) r @ dropWhile (\<lambda>c. c \<noteq> SLASH) s"
    using assms(3) takeWhile_dropWhile_id [of "\<lambda>c. c \<noteq> SLASH" s] by (metis append_assoc)
  then show ?thesis by blast
qed

lemma no_new_match:
  assumes "match_size (c # s) = None"
  shows "match_size (c # replace_global s) = None"
proof (cases "match_size (c # replace_global s)")
  case None
  then show ?thesis .
next
  case (Some n)
  from match_size_elim [OF Some] obtain d1 d2 rest where
    s: "c # replace_global s = SLASH # d1 @ ''fx'' @ d2 @ CHR ''f'' # rest"
    and ne: "d1 \<noteq> []" "d2 \<noteq> []"
    and d: "\<forall>c \<in> set d1. isDigit c" "\<forall>c \<in> set d2. isDigit c"
    by blast
  from s have c: "c = SLASH" and t: "replace_global s = (d1 @ ''fx'' @ d2 @ ''f'') @ rest"
    by simp_all
  have "SLASH \<notin> set (d1 @ ''fx'' @ d2 @ ''f'')"
    using digits_no_SLASH [OF d(1)] digits_no_SLASH [OF d(2)] by (auto simp: SLASH_def)
  from no_SLASH_prefix [OF t this takeWhile_replace_global]
  obtain r' where "s = (d1 @ ''fx'' @ d2 @ ''f'') @ r'" by blast
  then have "match_size (c # s) = Some (length d1 + length d2 + 4)"
    using match_size_intro [OF ne(1) d(1) ne(2) d(2), of r'] c by simp
  with assms show ?thesis by simp
qed

lemma replace_global_idem: "replace_global (replace_global s) = replace_global s"
proof (induction s rule: replace_global.induct)
  case 1
  show ?case by simp
next
  case (2 c s)
  show ?case
  proof (cases "match_size (c # s)")
    case None
    from no_new_match [OF None] None "2.IH" show ?thesis by simp
  next
    case (Some n)
    with "2.IH" show ?thesis by (simp add: replace_global_SIZE360)
  qed
qed

text \<open>
  Claim C10: \<open>upgradeSteamImageSize\<close> is idempotent, in the variant of server.js that
  replaces the size token at the end of the URL and in the persistent variant that
  replaces every size token.
\<close>

theorem upgradeSteamImageSize_idempotent:
  "upgradeSteamImageSize (upgradeSteamImageSize u) = upgradeSteamImageSize u \<and>
   upgradeSteamImageSize_global (upgradeSteamImageSize_global u) =
     upgradeSteamImageSize_global u"
  by (simp add: upgradeSteamImageSize_def upgradeSteamImageSize_global_def
      replace_anchored_idem replace_global_idem)

lemma upgradeSteamImageSize_example:
  "upgradeSteamImageSize ''https://x/economy/image/abc/62fx62f'' =
     ''https://x/economy/image/abc/360fx360f''"
  by (simp add: upgradeSteamImageSize_def match_size_def SLASH_def isDigit_def SIZE360_def)

section \<open>Properties of the numeric parsing\<close>

lemma strip_numeric_price: "strip_numeric ''$12.50'' = ''12.50''"
  by (simp add: strip_numeric_def isDigit_def)

lemma Number_stripped_price: "Number_stripped ''12.50'' = Num (25 / 2)"
  by (simp add: Number_stripped_def unsigned_decimal_def isDigit_def decimal_def
      digit_val_def round_double_def)

lemma Number_stripped_minus: "Number_stripped ''-'' = NaN"
  by (simp add: Number_stripped_def unsigned_decimal_def)

lemma moneyToNumber_examples:
  "moneyToNumber (Some ''$12.50'') = Some (25 / 2)"
  "moneyToNumber (Some []) = None"
  "moneyToNumber (Some ''-'') = None"
  by (simp_all add: moneyToNumber_def strip_numeric_price Number_stripped_price
      finite_or_null_def)
    (simp_all add: strip_numeric_def isDigit_def Number_stripped_minus)

lemma numOrNull_examples:
  "numOrNull (Some ''$12.50'') = Some (25 / 2)"
  "numOrNull (Some []) = None"
  "numOrNull None = None"
  "numOrNull (Some ''-'') = None"
proof -
  have t: "trim ''$12.50'' = ''$12.50''" "trim ''-'' = ''-''" "trim [] = []"
    by (simp_all add: trim_def isWhiteSpace_def)
  have s: "strip_numeric ''-'' = ''-''"
    by (simp add: strip_numeric_def)
  show "numOrNull (Some ''$12.50'') = Some (25 / 2)"
    by (simp add: numOrNull_def t strip_numeric_price Number_stripped_price finite_or_null_def)
  show "numOrNull (Some []) = None" "numOrNull None = None"
    by (simp_all add: numOrNull_def t)
  show "numOrNull (Some ''-'') = None"
    by (simp add: numOrNull_def t s)
qed

lemma sheetPrice_examples:
  "request_sheetPrice (Some ''$12.50'') = Some (25 / 2)"
  "request_sheetPrice (Some ''-'') = None"
  by (simp add: request_sheetPrice_def strip_numeric_price Number_stripped_price finite_or_null_def)
    (simp add: request_sheetPrice_def strip_numeric_def Number_stripped_minus finite_or_null_def)

text \<open>
  Claim C6 (an empty cell is parsed to absent, never to 0, also for the sheet price on
  the request path): on the request path of server.js an empty price cell, and a row
  that has no price cell, give the sheet price 0.
\<close>

theorem sheetPrice_empty_is_zero:
  "request_sheetPrice (Some []) = Some 0 \<and> request_sheetPrice None = Some 0"
  by (simp add: request_sheetPrice_def strip_numeric_def Number_stripped_def finite_or_null_def)

section \<open>Properties of strategy A\<close>

lemma field_Some_object: "field node key = Some v \<Longrightarrow> truthy node \<and> isObject node"
  by (cases node) simp_all

lemma truthy_string_of_Some_object:
  "truthy_string_of (field node key) = Some u \<Longrightarrow> truthy node \<and> isObject node"
  by (cases "field node key") (auto simp: truthy_string_of_def dest: field_Some_object)

lemma string_of_Some_object:
  "string_of (field node key) = Some u \<Longrightarrow> truthy node \<and> isObject node"
  by (cases "field node key") (auto dest: field_Some_object)

lemma strategyA_server_large_first:
  assumes "truthy_string_of (field node ''icon_url_large'') = Some u"
  shows "strategyA_server (node # stack) = Some u"
  using assms truthy_string_of_Some_object [OF assms] by simp

lemma strategyA_server_fallback:
  assumes "truthy_string_of (field node ''icon_url_large'') = None"
    and "truthy_string_of (field node ''icon_url'') = Some u"
  shows "strategyA_server (node # stack) = Some u"
  using assms truthy_string_of_Some_object [OF assms(2)] by simp

lemma strategyA_persistent_large_first:
  assumes "string_of (field node ''icon_url_large'') = Some u"
  shows "strategyA_persistent (node # stack) = Some u"
  using assms string_of_Some_object [OF assms] by simp

lemma strategyA_persistent_fallback:
  assumes "string_of (field node ''icon_url_large'') = None"
    and "string_of (field node ''icon_url'') = Some u"
  shows "strategyA_persistent (node # stack) = Some u"
  using assms string_of_Some_object [OF assms(2)] by simp

lemma strategyA_memory_small_first:
  assumes "truthy_string_of (field node ''icon_url'') = Some u"
  shows "strategyA_memory (node # stack) = Some u"
  using assms truthy_string_of_Some_object [OF assms] by simp

text \<open>
  Claim C5 (strategy A looks for \<open>icon_url_large\<close> first and falls back to \<open>icon_url\<close>;
  at a node that carries both, the large one is taken): the traversal of the first
  in-memory variant takes \<open>icon_url\<close> at a node that carries both, and so does that
  variant's resolver; the traversals of server.js and of the persistent variant take
  \<open>icon_url_large\<close> there.
\<close>

theorem strategyA_memory_takes_icon_url:
  "strategyA_memory [JObj [(''icon_url'', JStr ''small''), (''icon_url_large'', JStr ''big'')]]
     = Some ''small''
   \<and> resolve_memory scrape
       (JObj [(''assets'', JObj [(''icon_url'', JStr ''small''), (''icon_url_large'', JStr ''big'')])])
     = Inr (Some (CLOUDFLARE_BASE @ ''small''))
   \<and> strategyA_server [JObj [(''icon_url'', JStr ''small''), (''icon_url_large'', JStr ''big'')]]
     = Some ''big''
   \<and> strategyA_persistent [JObj [(''icon_url'', JStr ''small''), (''icon_url_large'', JStr ''big'')]]
     = Some ''big''"
  by (simp add: truthy_string_of_def resolve_memory_def assets_stack_def full_url_def)

section \<open>Properties of the in-memory image cache\<close>

lemma cacheGet_fresh:
  assumes "imageCache st key = Some e" and "clock st - entry_ts e \<le> ttl"
  shows "cacheGet ttl key st = (entry_imageUrl e, st)"
  using assms by (simp add: cacheGet_def)

lemma cacheGet_absent: "imageCache st key = None \<Longrightarrow> cacheGet ttl key st = (None, st)"
  by (simp add: cacheGet_def)

lemma requests_search_request:
  "requests (snd (search_request fetch key st)) = requests st @ [key]"
  by (simp add: search_request_def)

lemma requests_cacheSet: "requests (cacheSet key url st) = requests st"
  by (simp add: cacheSet_def)

lemma fetchSteamImage_server_miss:
  assumes "cacheGet CACHE_TTL_MS_server key st = (None, st1)"
  shows "requests (snd (fetchSteamImage_server fetch scrape key st)) = requests st1 @ [key]"
proof -
  obtain r st2 where s: "search_request fetch key st1 = (r, st2)"
    by (cases "search_request fetch key st1")
  then have "requests st2 = requests st1 @ [key]"
    using requests_search_request [of fetch key st1] by simp
  with assms s show ?thesis
    by (auto simp: fetchSteamImage_server_def requests_cacheSet split: sum.splits)
qed

lemma fetchSteamImage_memory_miss:
  assumes "cacheGet CACHE_TTL_MS_memory key st = (None, st1)"
  shows "requests (snd (fetchSteamImage_memory fetch scrape key st)) = requests st1 @ [key]"
proof -
  obtain r st2 where s: "search_request fetch key st1 = (r, st2)"
    by (cases "search_request fetch key st1")
  then have "requests st2 = requests st1 @ [key]"
    using requests_search_request [of fetch key st1] by simp
  with assms s show ?thesis
    by (auto simp: fetchSteamImage_memory_def requests_cacheSet split: sum.splits)
qed

text \<open>
  Claim C1, as stated (an entry that holds null and has not expired makes the
  resolution return null without an upstream request), fails: with such an entry for
  \<open>k\<close>, one millisecond old, the resolution of server.js sends a search request for \<open>k\<close>.
\<close>

theorem fetchSteamImage_cached_null_counterexample:
  "imageCache \<lparr>imageCache = [''k'' \<mapsto> \<lparr>entry_imageUrl = None, entry_ts = 0\<rparr>],
      clock = 1, requests = []\<rparr> ''k'' = Some \<lparr>entry_imageUrl = None, entry_ts = 0\<rparr>
   \<and> (1::int) - 0 \<le> CACHE_TTL_MS_server
   \<and> requests (snd (fetchSteamImage_server (\<lambda>m. (5, Json JNull)) (\<lambda>h. None) ''k''
        \<lparr>imageCache = [''k'' \<mapsto> \<lparr>entry_imageUrl = None, entry_ts = 0\<rparr>],
         clock = 1, requests = []\<rparr>)) = [''k'']"
proof -
  have "cacheGet CACHE_TTL_MS_server ''k''
          \<lparr>imageCache = [''k'' \<mapsto> \<lparr>entry_imageUrl = None, entry_ts = 0\<rparr>],
           clock = 1, requests = []\<rparr>
        = (None, \<lparr>imageCache = [''k'' \<mapsto> \<lparr>entry_imageUrl = None, entry_ts = 0\<rparr>],
           clock = 1, requests = []\<rparr>)"
    by (simp add: cacheGet_def CACHE_TTL_MS_server_def)
  from fetchSteamImage_server_miss [OF this] show ?thesis
    by (simp add: CACHE_TTL_MS_server_def)
qed

text \<open>
  Claim C1, amended: for every market identifier whose image-cache entry has not yet
  expired and holds a URL (a string in server.js, a non-empty string in the first
  variant), the image resolution returns that URL, sends no upstream request and leaves
  the state as it is. An entry that holds null is not told from an absent one: cacheGet
  returns null for both, and the resolution then sends a new upstream search request.
\<close>

theorem fetchSteamImage_cache_hit:
  assumes "imageCache st key = Some e"
  shows "(clock st - entry_ts e \<le> CACHE_TTL_MS_server \<longrightarrow>
            (\<forall>url. entry_imageUrl e = Some url \<longrightarrow>
               fetchSteamImage_server fetch scrape key st = (Inr (Some url), st))
          \<and> (entry_imageUrl e = None \<longrightarrow>
               cacheGet CACHE_TTL_MS_server key st = (None, st)
             \<and> requests (snd (fetchSteamImage_server fetch scrape key st)) = requests st @ [key]))
       \<and> (clock st - entry_ts e \<le> CACHE_TTL_MS_memory \<longrightarrow>
            (\<forall>url. entry_imageUrl e = Some url \<and> url \<noteq> [] \<longrightarrow>
               fetchSteamImage_memory fetch scrape key st = (Inr (Some url), st))
          \<and> (entry_imageUrl e = None \<longrightarrow>
               cacheGet CACHE_TTL_MS_memory key st = (None, st)
             \<and> requests (snd (fetchSteamImage_memory fetch scrape key st)) = requests st @ [key]))"
proof (intro conjI impI allI)
  fix url
  assume "clock st - entry_ts e \<le> CACHE_TTL_MS_server" "entry_imageUrl e = Some url"
  with cacheGet_fresh [OF assms, of CACHE_TTL_MS_server]
  show "fetchSteamImage_server fetch scrape key st = (Inr (Some url), st)"
    by (simp add: fetchSteamImage_server_def)
next
  assume a: "clock st - entry_ts e \<le> CACHE_TTL_MS_server" "entry_imageUrl e = None"
  with cacheGet_fresh [OF assms, of CACHE_TTL_MS_server]
  show g: "cacheGet CACHE_TTL_MS_server key st = (None, st)" by simp
  from fetchSteamImage_server_miss [OF g]
  show "requests (snd (fetchSteamImage_server fetch scrape key st)) = requests st @ [key]" .
next
  fix url
  assume "clock st - entry_ts e \<le> CACHE_TTL_MS_memory" "entry_imageUrl e = Some url \<and> url \<noteq> []"
  with cacheGet_fresh [OF assms, of CACHE_TTL_MS_memory]
  show "fetchSteamImage_memory fetch scrape key st = (Inr (Some url), st)"
    by (simp add: fetchSteamImage_memory_def)
next
  assume a: "clock st - entry_ts e \<le> CACHE_TTL_MS_memory" "entry_imageUrl e = None"
  with cacheGet_fresh [OF assms, of CACHE_TTL_MS_memory]
  show g: "cacheGet CACHE_TTL_MS_memory key st = (None, st)" by simp
  from fetchSteamImage_memory_miss [OF g]
  show "requests (snd (fetchSteamImage_memory fetch scrape key st)) = requests st @ [key]" .
qed

theorem fetchSteamImage_cache_hit_witness:
  "fetchSteamImage_server (\<lambda>m. (5, Json JNull)) (\<lambda>h. None) ''k''
      \<lparr>imageCache = [''k'' \<mapsto> \<lparr>entry_imageUrl = Some ''u'', entry_ts = 0\<rparr>],
       clock = 1, requests = []\<rparr>
     = (Inr (Some ''u''),
        \<lparr>imageCache = [''k'' \<mapsto> \<lparr>entry_imageUrl = Some ''u'', entry_ts = 0\<rparr>],
         clock = 1, requests = []\<rparr>)
   \<and> requests (snd (fetchSteamImage_memory (\<lambda>m. (5, Json JNull)) (\<lambda>h. None) ''k''
        \<lparr>imageCache = [''k'' \<mapsto> \<lparr>entry_imageUrl = None, entry_ts = 0\<rparr>],
         clock = 1, requests = []\<rparr>)) = [''k'']"
proof -
  have 1: "imageCache \<lparr>imageCache = [''k'' \<mapsto> \<lparr>entry_imageUrl = Some ''u'', entry_ts = 0\<rparr>],
       clock = 1, requests = []\<rparr> ''k'' = Some \<lparr>entry_imageUrl = Some ''u'', entry_ts = 0\<rparr>"
    by simp
  have 2: "imageCache \<lparr>imageCache = [''k'' \<mapsto> \<lparr>entry_imageUrl = None, entry_ts = 0\<rparr>],
       clock = 1, requests = []\<rparr> ''k'' = Some \<lparr>entry_imageUrl = None, entry_ts = 0\<rparr>"
    by simp
  show ?thesis
    using fetchSteamImage_cache_hit [OF 1, of "\<lambda>m. (5, Json JNull)" "\<lambda>h. None"]
      fetchSteamImage_cache_hit [OF 2, of "\<lambda>m. (5, Json JNull)" "\<lambda>h. None"]
    by (simp add: CACHE_TTL_MS_server_def CACHE_TTL_MS_memory_def)
qed

section \<open>Properties of the upsert from the sheet\<close>

lemma enrichment_apply_set: "enrichment (apply_set op doc) = enrichment doc"
  by (simp add: enrichment_def apply_set_def)

lemma enrichment_inserted: "enrichment (inserted op) = no_enrichment"
  by (simp add: enrichment_def inserted_def no_enrichment_def)

lemma sheet_fields_apply_set:
  "sheet_fields (apply_set op doc) =
     (set_marketName op, set_name op, set_wear op, set_sheetPrice op, set_floatValue op,
      set_paintSeed op, set_sheetTimestamp op, set_row op, set_lastSeenAt op)"
  by (simp add: sheet_fields_def apply_set_def)

lemma upsertOne_existing:
  assumes "db k = Some doc"
  shows "\<exists>doc'. upsertOne op db k = Some doc' \<and> enrichment doc' = enrichment doc"
proof (cases "set_marketName op = k")
  case True
  with assms show ?thesis by (simp add: upsertOne_def enrichment_apply_set)
next
  case False
  with assms show ?thesis by (simp add: upsertOne_def split: option.splits)
qed

lemma upsertOne_new:
  assumes "db k = None" and "upsertOne op db k = Some doc'"
  shows "enrichment doc' = no_enrichment"
  using assms
  by (cases "set_marketName op = k")
    (auto simp: upsertOne_def enrichment_inserted split: option.splits)

lemma bulkWrite_existing:
  "db k = Some doc \<Longrightarrow>
   \<exists>doc'. bulkWrite ops db k = Some doc' \<and> enrichment doc' = enrichment doc"
proof (induction ops arbitrary: db doc)
  case Nil
  then show ?case by (simp add: bulkWrite_def)
next
  case (Cons op ops)
  from upsertOne_existing [of db k doc op, OF Cons.prems] obtain d1 where
    d1: "upsertOne op db k = Some d1" "enrichment d1 = enrichment doc" by blast
  from Cons.IH [of "upsertOne op db" d1, OF d1(1)] d1(2) show ?case by (simp add: bulkWrite_def)
qed

lemma bulkWrite_new:
  "db k = None \<Longrightarrow> bulkWrite ops db k = Some doc' \<Longrightarrow> enrichment doc' = no_enrichment"
proof (induction ops arbitrary: db)
  case Nil
  then show ?case by (simp add: bulkWrite_def)
next
  case (Cons op ops)
  show ?case
  proof (cases "upsertOne op db k")
    case None
    from Cons.IH [of "upsertOne op db", OF None] Cons.prems(2) show ?thesis by (simp add: bulkWrite_def)
  next
    case (Some d1)
    from upsertOne_new [of db k op d1, OF Cons.prems(1) Some] have e: "enrichment d1 = no_enrichment" .
    from bulkWrite_existing [of "upsertOne op db" k d1 ops, OF Some] Cons.prems(2) e show ?thesis
      by (auto simp: bulkWrite_def)
  qed
qed

text \<open>
  Claim C9: when \<open>upsertFromSheet\<close> processes rows, a record that is already in the
  store keeps its eight Steam fields (imageUrl, steamLowest, steamMedian, steamVolume,
  imageUpdatedAt, steamUpdatedAt, imageError, steamError); the update of an existing
  record by one row writes the sheet's fields and lastSeenAt and nothing else; and a
  record that the write inserts has the eight Steam fields null. The first and the last
  hold for every list of operations, so for every order in which the unordered bulk
  write runs them.
\<close>

theorem upsertFromSheet_keeps_enrichment:
  "(db k = Some doc \<longrightarrow>
      (\<exists>doc'. snd (upsertFromSheet now rows db) k = Some doc' \<and> enrichment doc' = enrichment doc)
    \<and> (\<exists>doc'. bulkWrite ops db k = Some doc' \<and> enrichment doc' = enrichment doc))
   \<and> (db (set_marketName op) = Some doc \<longrightarrow>
      (\<exists>doc'. upsertOne op db = db(set_marketName op \<mapsto> doc')
         \<and> enrichment doc' = enrichment doc
         \<and> sheet_fields doc' =
             (set_marketName op, set_name op, set_wear op, set_sheetPrice op,
              set_floatValue op, set_paintSeed op, set_sheetTimestamp op, set_row op,
              set_lastSeenAt op)))
   \<and> (db k = None \<longrightarrow>
      (\<forall>doc'. snd (upsertFromSheet now rows db) k = Some doc' \<longrightarrow>
         enrichment doc' = (None, None, None, None, None, None, None, None))
    \<and> (\<forall>doc'. bulkWrite ops db k = Some doc' \<longrightarrow>
         enrichment doc' = (None, None, None, None, None, None, None, None)))"
proof (intro conjI impI allI)
  assume a: "db k = Some doc"
  show "\<exists>doc'. snd (upsertFromSheet now rows db) k = Some doc' \<and> enrichment doc' = enrichment doc"
  proof (cases rows)
    case Nil
    with a show ?thesis by (simp add: upsertFromSheet_def)
  next
    case (Cons header body)
    with bulkWrite_existing [of db k doc "sheet_ops now body", OF a] show ?thesis
      by (simp add: upsertFromSheet_def)
  qed
  show "\<exists>doc'. bulkWrite ops db k = Some doc' \<and> enrichment doc' = enrichment doc"
    by (rule bulkWrite_existing [of db k doc ops, OF a])
next
  assume a: "db (set_marketName op) = Some doc"
  then have "upsertOne op db = db(set_marketName op \<mapsto> apply_set op doc)"
    by (simp add: upsertOne_def)
  then show "\<exists>doc'. upsertOne op db = db(set_marketName op \<mapsto> doc')
         \<and> enrichment doc' = enrichment doc
         \<and> sheet_fields doc' =
             (set_marketName op, set_name op, set_wear op, set_sheetPrice op,
              set_floatValue op, set_paintSeed op, set_sheetTimestamp op, set_row op,
              set_lastSeenAt op)"
    using enrichment_apply_set [of op doc] sheet_fields_apply_set [of op doc] by blast
next
  fix doc'
  assume a: "db k = None" and b: "snd (upsertFromSheet now rows db) k = Some doc'"
  show "enrichment doc' = (None, None, None, None, None, None, None, None)"
  proof (cases rows)
    case Nil
    with a b show ?thesis by (simp add: upsertFromSheet_def)
  next
    case (Cons header body)
    with b have "bulkWrite (sheet_ops now body) db k = Some doc'"
      by (simp add: upsertFromSheet_def)
    from bulkWrite_new [of db k "sheet_ops now body" doc', OF a this] show ?thesis by (simp add: no_enrichment_def)
  qed
next
  fix doc'
  assume a: "db k = None" and b: "bulkWrite ops db k = Some doc'"
  from bulkWrite_new [of db k ops doc', OF a b] show "enrichment doc' = (None, None, None, None, None, None, None, None)"
    by (simp add: no_enrichment_def)
qed

theorem upsertFromSheet_keeps_enrichment_witness:
  "(\<exists>doc'. snd (upsertFromSheet 5 [[''h''], [''Glock'']] [''Glock'' \<mapsto> example_item]) ''Glock''
            = Some doc' \<and> enrichment doc' = enrichment example_item)
   \<and> (\<exists>doc'. snd (upsertFromSheet 5 [[''h''], [''Glock'']] Map.empty) ''Glock'' = Some doc'
            \<and> enrichment doc' = (None, None, None, None, None, None, None, None))"
proof -
  have k: "set_marketName (row_op 5 [''Glock'']) = ''Glock''"
    by (simp add: row_op_def toMarketName_def cell_def or_empty_def trim_def isWhiteSpace_def)
  have ops: "sheet_ops 5 [[''Glock'']] = [row_op 5 [''Glock'']]"
    by (simp add: sheet_ops_def has_name_def cell_def)
  have ins: "snd (upsertFromSheet 5 [[''h''], [''Glock'']] Map.empty) ''Glock''
               = Some (inserted (row_op 5 [''Glock'']))"
    by (simp add: upsertFromSheet_def ops bulkWrite_def upsertOne_def k)
  have 1: "[''Glock'' \<mapsto> example_item] ''Glock'' = Some example_item" by simp
  have 2: "(Map.empty :: string \<rightharpoonup> item) ''Glock'' = None" by simp
  from upsertFromSheet_keeps_enrichment
        [of "[''Glock'' \<mapsto> example_item]" "''Glock''" example_item 5 "[[''h''], [''Glock'']]"] 1
  have a: "\<exists>doc'. snd (upsertFromSheet 5 [[''h''], [''Glock'']] [''Glock'' \<mapsto> example_item]) ''Glock''
            = Some doc' \<and> enrichment doc' = enrichment example_item"
    by blast
  from upsertFromSheet_keeps_enrichment
        [of Map.empty "''Glock''" _ 5 "[[''h''], [''Glock'']]"] 2 ins
  have b: "enrichment (inserted (row_op 5 [''Glock''])) =
             (None, None, None, None, None, None, None, None)"
    by blast
  from a b ins show ?thesis by blast
qed

section \<open>Properties of one refresh\<close>





section \<open>Properties of mapLimit\<close>

lemma start_workers_all:
  "a + k \<le> n \<Longrightarrow>
   start_workers n k \<lparr>results = r, idx = a, calls = [0..<a], workers = map Awaiting [0..<a]\<rparr>
     = \<lparr>results = r, idx = a + k, calls = [0..<a + k], workers = map Awaiting [0..<a + k]\<rparr>"
proof (induction k arbitrary: a)
  case 0
  show ?case by simp
next
  case (Suc k)
  from Suc.prems have "a < n" "Suc a + k \<le> n" by simp_all
  with Suc.IH [of "Suc a"] show ?case by (simp add: worker_loop_def)
qed

lemma pool_ok_start:
  assumes "m \<le> n"
  shows "pool_ok g n m
    \<lparr>results = replicate n None, idx = m, calls = [0..<m], workers = map Awaiting [0..<m]\<rparr>"
  using assms by (auto simp: pool_ok_def pool_inv_def)

lemma count_update:
  "w < length ws \<Longrightarrow>
   length (filter P (ws[w := x])) + (if P (ws ! w) then 1 else 0)
     = length (filter P ws) + (if P x then 1 else 0)"
proof (induction ws arbitrary: w)
  case Nil
  then show ?case by simp
next
  case (Cons a ws)
  show ?case
  proof (cases w)
    case 0
    then show ?thesis by simp
  next
    case (Suc v)
    with Cons.prems have "v < length ws" by simp
    from Cons.IH [OF this] Suc show ?thesis by simp
  qed
qed

lemma awaiting_count:
  "length (awaiting_workers st) = length (filter is_awaiting (workers st))"
proof -
  have "filter is_awaiting (map (\<lambda>w. workers st ! w) [0..<length (workers st)])
        = map (\<lambda>w. workers st ! w) (awaiting_workers st)"
    by (simp add: awaiting_workers_def filter_map comp_def)
  then have "length (filter is_awaiting (map (\<lambda>w. workers st ! w) [0..<length (workers st)]))
        = length (awaiting_workers st)"
    by simp
  then show ?thesis by (simp add: map_nth)
qed

lemma pick_awaiting:
  assumes "pick st k = Some w"
  shows "w < length (workers st) \<and> is_awaiting (workers st ! w)"
proof -
  from assms have ne: "awaiting_workers st \<noteq> []"
    and w: "w = awaiting_workers st ! (k mod length (awaiting_workers st))"
    by (auto simp: pick_def split: if_splits)
  from ne have "k mod length (awaiting_workers st) < length (awaiting_workers st)" by simp
  with w have "w \<in> set (awaiting_workers st)" by simp
  then show ?thesis by (simp add: awaiting_workers_def)
qed

lemma awaiting_exists:
  assumes "w < length (workers st)" "is_awaiting (workers st ! w)"
  shows "awaiting_workers st \<noteq> []"
proof -
  from assms have "w \<in> set (awaiting_workers st)" by (simp add: awaiting_workers_def)
  then show ?thesis by auto
qed

lemma settle_next:
  assumes "workers st ! w = Awaiting my" "fn (items ! my) my = Inr v" "idx st < length items"
  shows "settle fn items w st =
    st\<lparr>results := (results st)[my := Some v], idx := Suc (idx st),
       calls := calls st @ [idx st], workers := (workers st)[w := Awaiting (idx st)]\<rparr>"
  using assms by (simp add: settle_def worker_loop_def)

lemma settle_last:
  assumes "workers st ! w = Awaiting my" "fn (items ! my) my = Inr v" "\<not> idx st < length items"
  shows "settle fn items w st =
    st\<lparr>results := (results st)[my := Some v], workers := (workers st)[w := Finished]\<rparr>"
  using assms by (simp add: settle_def worker_loop_def)

lemma pool_ok_next:
  assumes inv: "pool_ok g n m st" and w: "w < m" and aw: "workers st ! w = Awaiting my"
    and lt: "idx st < n"
  shows "pool_ok g n m
    (st\<lparr>results := (results st)[my := Some (g my)], idx := Suc (idx st),
        calls := calls st @ [idx st], workers := (workers st)[w := Awaiting (idx st)]\<rparr>)"
proof -
  from inv have len: "length (results st) = n" "length (workers st) = m"
    and calls: "calls st = [0..<idx st]"
    and shape: "\<And>v. v < m \<Longrightarrow> workers st ! v = Finished \<or> (\<exists>my. workers st ! v = Awaiting my)"
    and below: "\<And>v k. v < m \<Longrightarrow> workers st ! v = Awaiting k \<Longrightarrow> k < idx st"
    and uniq: "\<And>v v' k. v < m \<Longrightarrow> v' < m \<Longrightarrow> workers st ! v = Awaiting k \<Longrightarrow>
                 workers st ! v' = Awaiting k \<Longrightarrow> v = v'"
    and res: "\<And>i. i < n \<Longrightarrow> results st ! i =
            (if i < idx st \<and> (\<forall>v < m. workers st ! v \<noteq> Awaiting i) then Some (g i) else None)"
    and fin: "(\<exists>v < m. workers st ! v = Finished) \<Longrightarrow> idx st = n"
    unfolding pool_ok_def pool_inv_def by blast+
  have my: "my < idx st" using below [OF w aw] .
  have nofin: "workers st ! v \<noteq> Finished" if "v < m" for v
    using fin that lt by auto
  let ?ws = "(workers st)[w := Awaiting (idx st)]"
  have nth: "?ws ! v = (if v = w then Awaiting (idx st) else workers st ! v)" if "v < m" for v
    using that len by (simp add: nth_list_update)
  have "pool_inv g n m ((results st)[my := Some (g my)]) (Suc (idx st))
          (calls st @ [idx st]) ?ws"
    unfolding pool_inv_def
  proof (intro conjI allI impI)
    show "length ((results st)[my := Some (g my)]) = n" using len by simp
    show "Suc (idx st) \<le> n" using lt by simp
    show "calls st @ [idx st] = [0..<Suc (idx st)]" using calls by simp
    show "length ?ws = m" using len by simp
    fix v assume "v < m"
    with nth [of v] shape [of v]
    show "?ws ! v = Finished \<or> (\<exists>my. ?ws ! v = Awaiting my)" by auto
  next
    fix v k assume "v < m" "?ws ! v = Awaiting k"
    with nth [of v] below [of v k] show "k < Suc (idx st)"
      by (auto split: if_splits)
  next
    fix v v' k assume a: "v < m" "v' < m" "?ws ! v = Awaiting k \<and> ?ws ! v' = Awaiting k"
    show "v = v'"
    proof (cases "v = w")
      case True
      with a nth [of v] have k: "k = idx st" by simp
      show ?thesis
      proof (rule ccontr)
        assume "v \<noteq> v'"
        with True a nth [of v'] k have "workers st ! v' = Awaiting (idx st)" by simp
        from below [OF a(2) this] show False by simp
      qed
    next
      case False
      with a nth [of v] have v: "workers st ! v = Awaiting k" by simp
      show ?thesis
      proof (cases "v' = w")
        case True
        with a nth [of v'] have "k = idx st" by simp
        with below [OF a(1) v] show ?thesis by simp
      next
        case False
        with a nth [of v'] have "workers st ! v' = Awaiting k" by simp
        from uniq [OF a(1,2) v this] show ?thesis .
      qed
    qed
  next
    fix i assume i: "i < n"
    have r: "(results st)[my := Some (g my)] ! i = (if i = my then Some (g my) else results st ! i)"
      using i len by (simp add: nth_list_update)
    show "(results st)[my := Some (g my)] ! i =
        (if i < Suc (idx st) \<and> (\<forall>v < m. ?ws ! v \<noteq> Awaiting i) then Some (g i) else None)"
    proof (cases "i = my")
      case True
      have "?ws ! v \<noteq> Awaiting my" if "v < m" for v
      proof (cases "v = w")
        case True
        with nth [of v] that my show ?thesis by simp
      next
        case False
        with nth [of v] that uniq [of v w my] w aw show ?thesis by auto
      qed
      with True r my show ?thesis by simp
    next
      case False
      show ?thesis
      proof (cases "i < idx st")
        case True
        have "(\<forall>v < m. ?ws ! v \<noteq> Awaiting i) = (\<forall>v < m. workers st ! v \<noteq> Awaiting i)"
        proof (intro iffI allI impI)
          fix v assume h: "\<forall>v < m. ?ws ! v \<noteq> Awaiting i" "v < m"
          show "workers st ! v \<noteq> Awaiting i"
          proof (cases "v = w")
            case True
            with aw False show ?thesis by simp
          next
            case False
            with h nth [of v] show ?thesis by auto
          qed
        next
          fix v assume h: "\<forall>v < m. workers st ! v \<noteq> Awaiting i" "v < m"
          with nth [of v] True show "?ws ! v \<noteq> Awaiting i" by auto
        qed
        with r False True res [OF i] show ?thesis by simp
      next
        case ge: False
        have none: "results st ! i = None" using res [OF i] ge by simp
        show ?thesis
        proof (cases "i = idx st")
          case True
          with nth [of w] w have "?ws ! w = Awaiting i" by simp
          with w r False none show ?thesis by auto
        next
          case False
          with ge have "\<not> i < Suc (idx st)" by simp
          with r \<open>i \<noteq> my\<close> none show ?thesis by simp
        qed
      qed
    qed
  next
    assume "\<exists>v < m. ?ws ! v = Finished"
    then obtain v where "v < m" "?ws ! v = Finished" by blast
    with nth [of v] nofin [of v] show "Suc (idx st) = n" by (auto split: if_splits)
  qed
  then show ?thesis by (simp add: pool_ok_def)
qed

lemma pool_ok_last:
  assumes inv: "pool_ok g n m st" and w: "w < m" and aw: "workers st ! w = Awaiting my"
    and ge: "\<not> idx st < n"
  shows "pool_ok g n m
    (st\<lparr>results := (results st)[my := Some (g my)], workers := (workers st)[w := Finished]\<rparr>)"
proof -
  from inv have len: "length (results st) = n" "length (workers st) = m"
    and le: "idx st \<le> n"
    and calls: "calls st = [0..<idx st]"
    and shape: "\<And>v. v < m \<Longrightarrow> workers st ! v = Finished \<or> (\<exists>my. workers st ! v = Awaiting my)"
    and below: "\<And>v k. v < m \<Longrightarrow> workers st ! v = Awaiting k \<Longrightarrow> k < idx st"
    and uniq: "\<And>v v' k. v < m \<Longrightarrow> v' < m \<Longrightarrow> workers st ! v = Awaiting k \<Longrightarrow>
                 workers st ! v' = Awaiting k \<Longrightarrow> v = v'"
    and res: "\<And>i. i < n \<Longrightarrow> results st ! i =
            (if i < idx st \<and> (\<forall>v < m. workers st ! v \<noteq> Awaiting i) then Some (g i) else None)"
    unfolding pool_ok_def pool_inv_def by blast+
  from le ge have eq: "idx st = n" by simp
  have my: "my < idx st" using below [OF w aw] .
  let ?ws = "(workers st)[w := Finished]"
  have nth: "?ws ! v = (if v = w then Finished else workers st ! v)" if "v < m" for v
    using that len by (simp add: nth_list_update)
  have "pool_inv g n m ((results st)[my := Some (g my)]) (idx st) (calls st) ?ws"
    unfolding pool_inv_def
  proof (intro conjI allI impI)
    show "length ((results st)[my := Some (g my)]) = n" using len by simp
    show "idx st \<le> n" by (rule le)
    show "calls st = [0..<idx st]" by (rule calls)
    show "length ?ws = m" using len by simp
    show "idx st = n" by (rule eq)
    fix v assume "v < m"
    with nth [of v] shape [of v]
    show "?ws ! v = Finished \<or> (\<exists>my. ?ws ! v = Awaiting my)" by auto
  next
    fix v k assume "v < m" "?ws ! v = Awaiting k"
    with nth [of v] below [of v k] show "k < idx st"
      by (auto split: if_splits)
  next
    fix v v' k assume a: "v < m" "v' < m" "?ws ! v = Awaiting k \<and> ?ws ! v' = Awaiting k"
    with nth [of v] nth [of v'] have "workers st ! v = Awaiting k" "workers st ! v' = Awaiting k"
      by (auto split: if_splits)
    from uniq [OF a(1,2) this] show "v = v'" .
  next
    fix i assume i: "i < n"
    have r: "(results st)[my := Some (g my)] ! i = (if i = my then Some (g my) else results st ! i)"
      using i len by (simp add: nth_list_update)
    show "(results st)[my := Some (g my)] ! i =
        (if i < idx st \<and> (\<forall>v < m. ?ws ! v \<noteq> Awaiting i) then Some (g i) else None)"
    proof (cases "i = my")
      case True
      have "?ws ! v \<noteq> Awaiting my" if "v < m" for v
      proof (cases "v = w")
        case True
        with nth [of v] that show ?thesis by simp
      next
        case False
        with nth [of v] that uniq [of v w my] w aw show ?thesis by auto
      qed
      with True r my show ?thesis by simp
    next
      case False
      have "(\<forall>v < m. ?ws ! v \<noteq> Awaiting i) = (\<forall>v < m. workers st ! v \<noteq> Awaiting i)"
      proof (intro iffI allI impI)
        fix v assume h: "\<forall>v < m. ?ws ! v \<noteq> Awaiting i" "v < m"
        show "workers st ! v \<noteq> Awaiting i"
        proof (cases "v = w")
          case True
          with aw False show ?thesis by simp
        next
          case False
          with h nth [of v] show ?thesis by auto
        qed
      next
        fix v assume h: "\<forall>v < m. workers st ! v \<noteq> Awaiting i" "v < m"
        with nth [of v] show "?ws ! v \<noteq> Awaiting i" by auto
      qed
      with r False res [OF i] show ?thesis by simp
    qed
  qed
  then show ?thesis by (simp add: pool_ok_def)
qed

lemma remaining_next:
  assumes "w < length (workers st)" "workers st ! w = Awaiting my" "idx st < n"
  shows "Suc (remaining n
    (st\<lparr>results := rs, idx := Suc (idx st), calls := cl,
        workers := (workers st)[w := Awaiting (idx st)]\<rparr>)) = remaining n st"
  using assms count_update [of w "workers st" is_awaiting "Awaiting (idx st)"]
  by (simp add: remaining_def awaiting_count)

lemma remaining_last:
  assumes "w < length (workers st)" "workers st ! w = Awaiting my"
  shows "Suc (remaining n (st\<lparr>results := rs, workers := (workers st)[w := Finished]\<rparr>))
    = remaining n st"
  using assms count_update [of w "workers st" is_awaiting Finished]
  by (simp add: remaining_def awaiting_count)

lemma pool_ok_finished:
  assumes inv: "pool_ok g n m st" and m: "0 < m"
    and fin: "list_all (\<lambda>w. w = Finished) (workers st)"
  shows "results st = map (\<lambda>i. Some (g i)) [0..<n] \<and> calls st = [0..<n]"
proof -
  from inv have len: "length (results st) = n" "length (workers st) = m"
    and calls: "calls st = [0..<idx st]"
    and res: "\<And>i. i < n \<Longrightarrow> results st ! i =
            (if i < idx st \<and> (\<forall>v < m. workers st ! v \<noteq> Awaiting i) then Some (g i) else None)"
    and last: "(\<exists>v < m. workers st ! v = Finished) \<Longrightarrow> idx st = n"
    unfolding pool_ok_def pool_inv_def by blast+
  from fin len have all: "workers st ! v = Finished" if "v < m" for v
    using that by (simp add: list_all_length)
  with m last have eq: "idx st = n" by blast
  have "results st ! i = Some (g i)" if "i < n" for i
    using res [OF that] that eq all by simp
  then have "results st = map (\<lambda>i. Some (g i)) [0..<n]"
    using len by (intro nth_equalityI) simp_all
  with calls eq show ?thesis by simp
qed

lemma pool_ok_pending:
  assumes inv: "pool_ok g n m st"
    and nfin: "\<not> list_all (\<lambda>w. w = Finished) (workers st)"
  shows "awaiting_workers st \<noteq> []"
proof -
  from inv have len: "length (workers st) = m"
    and shape: "\<And>v. v < m \<Longrightarrow> workers st ! v = Finished \<or> (\<exists>my. workers st ! v = Awaiting my)"
    unfolding pool_ok_def pool_inv_def by blast+
  from nfin len obtain v where v: "v < m" "workers st ! v \<noteq> Finished"
    by (auto simp: list_all_length)
  with shape [of v] obtain my where "workers st ! v = Awaiting my" by blast
  with v len awaiting_exists [of v st] show ?thesis by simp
qed

lemma mapLimit_run_completes:
  assumes ok: "\<forall>i < length items. fn (items ! i) i = Inr (g i)" and m: "0 < m"
  shows "pool_ok g (length items) m st \<Longrightarrow> remaining (length items) st \<le> length sched \<Longrightarrow>
    fst (mapLimit_run fn items sched st) = Fulfilled (map (\<lambda>i. Some (g i)) [0..<length items])
    \<and> calls (snd (mapLimit_run fn items sched st)) = [0..<length items]"
proof (induction sched arbitrary: st)
  case Nil
  have "list_all (\<lambda>w. w = Finished) (workers st)"
  proof (rule ccontr)
    assume "\<not> list_all (\<lambda>w. w = Finished) (workers st)"
    from pool_ok_pending [OF Nil.prems(1) this] Nil.prems(2) show False
      by (simp add: remaining_def)
  qed
  with pool_ok_finished [OF Nil.prems(1) m] show ?case by simp
next
  case (Cons k ks)
  let ?n = "length items"
  show ?case
  proof (cases "list_all (\<lambda>w. w = Finished) (workers st)")
    case True
    with pool_ok_finished [OF Cons.prems(1) m] show ?thesis by simp
  next
    case False
    from pool_ok_pending [OF Cons.prems(1) False] obtain w where p: "pick st k = Some w"
      by (auto simp: pick_def)
    from pick_awaiting [OF p] obtain my where w: "w < length (workers st)"
      and aw: "workers st ! w = Awaiting my"
      by (cases "workers st ! w") auto
    from Cons.prems(1) have len: "length (workers st) = m"
      and below: "\<And>v k. v < m \<Longrightarrow> workers st ! v = Awaiting k \<Longrightarrow> k < idx st"
      and le: "idx st \<le> ?n"
      unfolding pool_ok_def pool_inv_def by blast+
    from below [of w my] w aw len le have "my < ?n" by simp
    with ok have fn: "fn (items ! my) my = Inr (g my)" by simp
    let ?st' = "settle fn items w st"
    have st': "pool_ok g ?n m ?st' \<and> Suc (remaining ?n ?st') = remaining ?n st
      \<and> is_failed (workers ?st' ! w) = None"
    proof (cases "idx st < ?n")
      case True
      from settle_next [of st w my fn items "g my", OF aw fn True] pool_ok_next [OF Cons.prems(1) _ aw True]
        remaining_next [OF w aw True] w len
      show ?thesis by simp
    next
      case False
      from settle_last [of st w my fn items "g my", OF aw fn False] pool_ok_last [OF Cons.prems(1) _ aw False]
        remaining_last [OF w aw] w len
      show ?thesis by simp
    qed
    with Cons.prems(2) have "remaining ?n ?st' \<le> length ks" by simp
    from Cons.IH [OF conjunct1 [OF st'] this] False p st' show ?thesis by simp
  qed
qed

text \<open>
  Claim C3: for every list of \<open>N\<close> items and every limit \<open>M\<close> with \<open>1 \<le> M \<le> N\<close>, and a
  transform whose promise is fulfilled on every item, mapLimit calls the transform
  exactly once on every item and its promise is fulfilled with an array of length \<open>N\<close>
  whose \<open>i\<close>-th slot holds the transform's result for the \<open>i\<close>-th item, in whatever order
  the transforms complete: every list of \<open>N\<close> or more choices of the next transform to
  complete ends so.
\<close>

theorem mapLimit_in_order:
  fixes fn :: "'a \<Rightarrow> nat \<Rightarrow> 'e + 'b"
  assumes "1 \<le> limit" and "limit \<le> length items"
    and "\<forall>i < length items. fn (items ! i) i = Inr (g i)"
    and "length items \<le> length sched"
  shows "fst (mapLimit fn items limit sched) =
           Fulfilled (map (\<lambda>i. Some (g i)) [0..<length items])
    \<and> calls (snd (mapLimit fn items limit sched)) = [0..<length items]"
proof -
  let ?n = "length items"
  let ?st = "\<lparr>results = replicate ?n None, idx = limit, calls = [0..<limit],
              workers = map Awaiting [0..<limit]\<rparr> :: ('b, 'e) pool"
  have start: "start_workers ?n (min limit ?n)
      \<lparr>results = replicate ?n None, idx = 0, calls = [], workers = []\<rparr> = ?st"
    using start_workers_all [of 0 limit ?n "replicate ?n None"] assms(2)
    by (simp add: min_def)
  have inv: "pool_ok g ?n limit ?st"
    by (rule pool_ok_start [OF assms(2)])
  have "filter is_awaiting (map Awaiting [0..<limit]) = map Awaiting [0..<limit]"
    by (simp add: filter_map comp_def)
  then have "length (awaiting_workers ?st) = limit"
    by (simp add: awaiting_count)
  with assms(2,4) have rem: "remaining ?n ?st \<le> length sched"
    by (simp add: remaining_def)
  from assms(1) have m: "0 < limit" by simp
  from mapLimit_run_completes [of items fn g limit ?st sched, OF assms(3) m inv rem] start
  show ?thesis
    by (simp add: mapLimit_def)
qed

theorem mapLimit_in_order_witness:
  "fst (mapLimit (\<lambda>x i. Inr (x + int i) :: unit + int) [10, 20, 30] 2 [1, 0, 5])
     = Fulfilled [Some 10, Some 21, Some 32]
   \<and> calls (snd (mapLimit (\<lambda>x i. Inr (x + int i) :: unit + int) [10, 20, 30] 2 [1, 0, 5]))
     = [0, 1, 2]"
proof -
  have 1: "(1::nat) \<le> 2" by simp
  have 2: "(2::nat) \<le> length [10, 20, 30 :: int]" by simp
  have 3: "\<forall>i < length [10, 20, 30 :: int].
      (\<lambda>x i. Inr (x + int i) :: unit + int) ([10, 20, 30] ! i) i
        = Inr ([10, 20, 30] ! i + int i)"
    by simp
  have 4: "length [10, 20, 30 :: int] \<le> length [1, 0, 5 :: nat]" by simp
  from mapLimit_in_order [of 2 "[10, 20, 30]" "\<lambda>x i. Inr (x + int i) :: unit + int"
      "\<lambda>i. [10, 20, 30] ! i + int i" "[1, 0, 5]", OF 1 2 3 4]
  show ?thesis
    by (simp add: upt_rec)
qed

section \<open>Properties of the in-flight guard\<close>

lemma task_step_Start_inFlight:
  "m \<in> inFlight st \<Longrightarrow> task_step up m rp ri Start st = (Done, st)"
  by simp









lemma two_triggers_one_search:
  "searches (snd (sys_run upstream_image_fails [Run 0, Run 1, Run 0, Run 0, Run 0, Run 1]
                    (two_calls, example_pstate))) = [''Glock'']
   \<and> map call_phase (fst (sys_run upstream_image_fails [Run 0, Run 1, Run 0, Run 0, Run 0, Run 1]
                    (two_calls, example_pstate))) = [Done, Done]"
  by (simp add: sys_run_def two_calls_def example_pstate_def Let_def image_section_def
      price_section_def finish_def isStale_def IMAGE_TTL_MS_def example_item_def)

section \<open>The work of the call in flight\<close>















end
